theory Spec2Isabelle
  imports Main "HOL-Library.Sublist" "HOL-Library.Word"
begin

section \<open>The chunk cache of gemini-tool-mcp\<close>

text \<open>
  A shallow embedding of \<^verbatim>\<open>src/utils/chunkCache.ts\<close> and of the redaction helper of
  \<^verbatim>\<open>src/utils/logger.ts\<close>.

  A JavaScript string is modelled as a \<^typ>\<open>string\<close>, a list with one \<^typ>\<open>char\<close> for each
  code unit, so that \<^const>\<open>length\<close> is \<^verbatim>\<open>.length\<close>; keys, file names and paths are ASCII.
  Everything the module takes from the Node runtime is explicit: the temporary directory,
  the working directory, the digest function and the environment flag are fields of an
  environment record; the disk, the clock, the random generator, the list of file-system calls
  made so far and the lines handed to the logger are fields of a state record that every
  function takes and returns. A call that can throw returns a sum, \<open>Inl\<close> the error, and every
  \<^verbatim>\<open>try/catch\<close> of the source is a case distinction on it.
\<close>

subsection \<open>Node's \<^verbatim>\<open>path\<close> module (POSIX)\<close>

text \<open>
  \<^verbatim>\<open>path.join\<close> and \<^verbatim>\<open>path.resolve\<close> are library code. They are modelled after their
  documented POSIX behaviour: a path is cut into its non-empty segments at \<^verbatim>\<open>/\<close>, the
  segments \<^verbatim>\<open>.\<close> and \<^verbatim>\<open>..\<close> are interpreted from left to right, and the result is put
  together again with single separators.
\<close>

type_synonym path = string

definition path_sep :: string where
  "path_sep = ''/''"

text \<open>The non-empty segments of a path; \<open>cur\<close> is the segment being read.\<close>

fun segs :: "string \<Rightarrow> string \<Rightarrow> string list" where
  "segs cur [] = (if cur = [] then [] else [cur])"
| "segs cur (c # cs) =
     (if c = CHR ''/'' then (if cur = [] then segs [] cs else cur # segs [] cs)
      else segs (cur @ [c]) cs)"

fun join_sep :: "string list \<Rightarrow> string" where
  "join_sep [] = []"
| "join_sep [s] = s"
| "join_sep (s # t # ss) = s @ ''/'' @ join_sep (t # ss)"

text \<open>
  Node's \<^verbatim>\<open>normalizeString\<close>, on segments: \<^verbatim>\<open>.\<close> is dropped; \<^verbatim>\<open>..\<close> removes the last
  segment of the result unless there is none or it is \<^verbatim>\<open>..\<close> itself, in which case it is
  kept when the path is relative (\<open>allowAboveRoot\<close>) and dropped at the root.
\<close>

fun normalize_segs :: "bool \<Rightarrow> string list \<Rightarrow> string list \<Rightarrow> string list" where
  "normalize_segs allowAboveRoot res [] = res"
| "normalize_segs allowAboveRoot res (s # ss) =
     (if s = ''.'' then normalize_segs allowAboveRoot res ss
      else if s = ''..'' then
        (if res \<noteq> [] \<and> last res \<noteq> ''..'' then normalize_segs allowAboveRoot (butlast res) ss
         else if allowAboveRoot then normalize_segs allowAboveRoot (res @ [''..'']) ss
         else normalize_segs allowAboveRoot res ss)
      else normalize_segs allowAboveRoot (res @ [s]) ss)"

definition is_absolute :: "path \<Rightarrow> bool" where
  "is_absolute p = (case p of [] \<Rightarrow> False | c # _ \<Rightarrow> c = CHR ''/'')"

text \<open>
  \<^verbatim>\<open>path.resolve(...args)\<close> is the directory reached from the working directory by following
  the arguments in turn, an absolute argument starting again at the root. (Node reads the
  arguments from the right until it meets an absolute one, which gives the same path; the
  working directory of a process is absolute.)
\<close>

fun resolve_from :: "string list \<Rightarrow> path list \<Rightarrow> string list" where
  "resolve_from res [] = res"
| "resolve_from res (p # ps) =
     resolve_from (normalize_segs False (if is_absolute p then [] else res) (segs [] p)) ps"

definition path_resolve :: "path \<Rightarrow> path list \<Rightarrow> path" where
  "path_resolve wd args = ''/'' @ join_sep (resolve_from [] (wd # args))"

definition path_normalize :: "path \<Rightarrow> path" where
  "path_normalize p =
     (if p = [] then ''.''
      else let isAbsolute = is_absolute p;
               trailingSeparator = (last p = CHR ''/'');
               n = join_sep (normalize_segs (\<not> isAbsolute) [] (segs [] p))
           in if n = [] then (if isAbsolute then ''/'' else if trailingSeparator then ''./'' else ''.'')
              else (if isAbsolute then ''/'' else []) @ n @ (if trailingSeparator then ''/'' else []))"

definition path_join :: "path list \<Rightarrow> path" where
  "path_join args =
     (let joined = join_sep (filter (\<lambda>a. a \<noteq> []) args)
      in if joined = [] then ''.'' else path_normalize joined)"

subsection \<open>Data model\<close>

text \<open>
  \<^verbatim>\<open>interface CacheEntry { chunks: EditChunk[]; timestamp: number; promptHash: string }\<close>.
  An \<^verbatim>\<open>EditChunk\<close> is opaque to the cache: the type variable \<open>'c\<close>.
\<close>

record 'c CacheEntry =
  chunks :: "'c list"
  timestamp :: int
  promptHash :: string

text \<open>
  The annotation \<^verbatim>\<open>const data: CacheEntry = JSON.parse(fileContent)\<close> is not checked when the
  program runs: \<^verbatim>\<open>data\<close> is whatever value the text of the file denotes. The model keeps of
  such a value what \<^verbatim>\<open>getChunks\<close> reads of it.

  The value of \<^verbatim>\<open>data.chunks\<close>, when it is neither \<^verbatim>\<open>undefined\<close> nor \<^verbatim>\<open>null\<close>, is an array,
  whose elements the cache does not look at, or some other value (a number, a string, an
  object), given by its JSON text and by what a template literal prints for its
  \<^verbatim>\<open>.length\<close> (\<^verbatim>\<open>undefined\<close> for a number).
\<close>

datatype 'c js_chunks = ChunkArray "'c list" | OtherValue string string

text \<open>
  The value \<^verbatim>\<open>JSON.parse\<close> returns is \<^verbatim>\<open>null\<close>, of which no property can be read, or a value
  with, first, the number that \<^verbatim>\<open>Date.now() - data.timestamp\<close> subtracts (\<open>None\<close> when the
  difference is \<^verbatim>\<open>NaN\<close>: there is no property \<^verbatim>\<open>timestamp\<close>, or it is not a number) and,
  second, the value of \<^verbatim>\<open>data.chunks\<close> (\<open>None\<close> when it is \<^verbatim>\<open>undefined\<close> or \<^verbatim>\<open>null\<close>).
  Times are whole milliseconds.
\<close>

datatype 'c parsed = ParsedNull | ParsedValue "int option" "'c js_chunks option"

text \<open>
  The text of a file: the serialisation of a cache entry, as \<^verbatim>\<open>cacheChunks\<close> writes it
  (\<^verbatim>\<open>JSON.parse\<close> undoes \<^verbatim>\<open>JSON.stringify\<close> on the plain data of an entry); text that
  \<^verbatim>\<open>JSON.parse\<close> rejects; or any other well-formed JSON text, given by the value it denotes.
\<close>

datatype 'c content = Entry "'c CacheEntry" | Corrupt | Json "'c parsed"

record 'c stored_file =
  content :: "'c content"
  mtimeMs :: int

datatype error =
    ENOENT      \<comment> \<open>no such file or directory\<close>
  | EIO         \<comment> \<open>the write or the mkdir failed\<close>
  | SyntaxError \<comment> \<open>thrown by \<^verbatim>\<open>JSON.parse\<close>\<close>
  | TypeError   \<comment> \<open>thrown by \<^verbatim>\<open>JSON.stringify\<close>, and by reading a property of \<^verbatim>\<open>null\<close> or \<^verbatim>\<open>undefined\<close>\<close>

datatype syscall =
    ExistsSync path
  | MkdirSync path
  | ChmodSync path
  | ReaddirSync path
  | StatSync path
  | UnlinkSync path
  | ReadFileSync path
  | WriteFileSync path

datatype log_call = LogDebug string | LogError string

text \<open>What the module reads from the Node runtime and never changes.\<close>

record 'c env =
  tmpdir :: path                        \<comment> \<open>\<^verbatim>\<open>os.tmpdir()\<close>\<close>
  cwd :: path                           \<comment> \<open>\<^verbatim>\<open>process.cwd()\<close>\<close>
  sha256_hex :: "string \<Rightarrow> string"       \<comment> \<open>\<^verbatim>\<open>createHash('sha256').update(s).digest('hex')\<close>\<close>
  serializable :: "'c \<Rightarrow> bool"            \<comment> \<open>whether \<^verbatim>\<open>JSON.stringify\<close> accepts the chunk\<close>
  GEMINI_MCP_LOG_PROMPTS :: "string option"  \<comment> \<open>\<^verbatim>\<open>process.env.GEMINI_MCP_LOG_PROMPTS\<close>\<close>

text \<open>
  The state: the cache directory (\<open>None\<close> while it does not exist, otherwise its entries in
  the order \<^verbatim>\<open>readdirSync\<close> lists them; every entry is a regular file), whether writing a
  file or creating the directory fails, the clock read by \<^verbatim>\<open>Date.now()\<close> and by the file
  system for modification times, the bytes \<^verbatim>\<open>randomBytes\<close> will deliver and how many of
  them have been taken, and the two traces.
\<close>

record 'c world =
  cache_dir :: "(string \<times> 'c stored_file) list option"
  write_fault :: bool
  mkdir_fault :: bool
  clock :: int
  entropy :: "nat \<Rightarrow> 8 word"
  drawn :: nat
  syscalls :: "syscall list"
  logged :: "log_call list"

subsection \<open>Constants\<close>

definition CACHE_DIR :: "'c env \<Rightarrow> path" where
  "CACHE_DIR env = path_join [tmpdir env, ''gemini-mcp-chunks'']"

definition CACHE_TTL :: int where
  "CACHE_TTL = 10 * 60 * 1000"

definition MAX_CACHE_FILES :: nat where
  "MAX_CACHE_FILES = 50"

text \<open>
  \<^verbatim>\<open>/^[a-f0-9]{8}$/i.test(key)\<close>: exactly eight characters, each a hexadecimal digit in
  either case (the flag \<^verbatim>\<open>i\<close>).
\<close>

definition hex_digit_i :: "char \<Rightarrow> bool" where
  "hex_digit_i c = (c \<in> set ''0123456789abcdefABCDEF'')"

definition CACHE_KEY_PATTERN_test :: "string \<Rightarrow> bool" where
  "CACHE_KEY_PATTERN_test cacheKey = (length cacheKey = 8 \<and> list_all hex_digit_i cacheKey)"

subsection \<open>The file system\<close>

text \<open>
  The object a path names: the cache directory, one of its entries, or something else.
  The operating system resolves a path against the working directory.
\<close>

datatype loc = TheDir | Member string | Elsewhere

definition base_segs :: "'c env \<Rightarrow> string list" where
  "base_segs env = resolve_from [] [cwd env, CACHE_DIR env]"

definition locate :: "'c env \<Rightarrow> path \<Rightarrow> loc" where
  "locate env p =
     (let s = resolve_from [] [cwd env, p]
      in if s = base_segs env then TheDir
         else if s \<noteq> [] \<and> butlast s = base_segs env then Member (last s)
         else Elsewhere)"

definition traced :: "syscall \<Rightarrow> 'c world \<Rightarrow> 'c world" where
  "traced c w = w\<lparr>syscalls := syscalls w @ [c]\<rparr>"

definition lookup_file :: "'c env \<Rightarrow> path \<Rightarrow> 'c world \<Rightarrow> 'c stored_file option" where
  "lookup_file env p w =
     (case locate env p of
        Member n \<Rightarrow> (case cache_dir w of None \<Rightarrow> None | Some es \<Rightarrow> map_of es n)
      | _ \<Rightarrow> None)"

text \<open>Of the rest of the file system the model says nothing: a path outside does not exist.\<close>

definition path_exists :: "'c env \<Rightarrow> path \<Rightarrow> 'c world \<Rightarrow> bool" where
  "path_exists env p w =
     (case locate env p of
        TheDir \<Rightarrow> cache_dir w \<noteq> None
      | Member n \<Rightarrow> lookup_file env p w \<noteq> None
      | Elsewhere \<Rightarrow> False)"

definition existsSync :: "'c env \<Rightarrow> path \<Rightarrow> 'c world \<Rightarrow> bool \<times> 'c world" where
  "existsSync env p w = (path_exists env p w, traced (ExistsSync p) w)"

text \<open>\<^verbatim>\<open>mkdirSync(p, { recursive: true })\<close>: no error when the directory exists.\<close>

definition mkdirSync :: "'c env \<Rightarrow> path \<Rightarrow> 'c world \<Rightarrow> (error + unit) \<times> 'c world" where
  "mkdirSync env p w =
     (let w1 = traced (MkdirSync p) w
      in if locate env p \<noteq> TheDir then (Inl ENOENT, w1)
         else if cache_dir w \<noteq> None then (Inr (), w1)
         else if mkdir_fault w then (Inl EIO, w1)
         else (Inr (), w1\<lparr>cache_dir := Some []\<rparr>))"

text \<open>Permissions are not part of the state: \<^verbatim>\<open>chmodSync\<close> only succeeds or fails.\<close>

definition chmodSync :: "'c env \<Rightarrow> path \<Rightarrow> 'c world \<Rightarrow> (error + unit) \<times> 'c world" where
  "chmodSync env p w =
     (if path_exists env p w then Inr () else Inl ENOENT, traced (ChmodSync p) w)"

definition readdirSync :: "'c env \<Rightarrow> path \<Rightarrow> 'c world \<Rightarrow> (error + string list) \<times> 'c world" where
  "readdirSync env p w =
     ((case locate env p of
         TheDir \<Rightarrow> (case cache_dir w of None \<Rightarrow> Inl ENOENT | Some es \<Rightarrow> Inr (map fst es))
       | _ \<Rightarrow> Inl ENOENT),
      traced (ReaddirSync p) w)"

text \<open>Of the \<^verbatim>\<open>Stats\<close> object only \<^verbatim>\<open>mtimeMs\<close> is read.\<close>

definition statSync :: "'c env \<Rightarrow> path \<Rightarrow> 'c world \<Rightarrow> (error + int) \<times> 'c world" where
  "statSync env p w =
     ((case lookup_file env p w of None \<Rightarrow> Inl ENOENT | Some f \<Rightarrow> Inr (mtimeMs f)),
      traced (StatSync p) w)"

definition readFileSync :: "'c env \<Rightarrow> path \<Rightarrow> 'c world \<Rightarrow> (error + 'c content) \<times> 'c world" where
  "readFileSync env p w =
     ((case lookup_file env p w of None \<Rightarrow> Inl ENOENT | Some f \<Rightarrow> Inr (content f)),
      traced (ReadFileSync p) w)"

definition remove_name :: "string \<Rightarrow> (string \<times> 'a) list \<Rightarrow> (string \<times> 'a) list" where
  "remove_name n es = filter (\<lambda>e. fst e \<noteq> n) es"

definition unlinkSync :: "'c env \<Rightarrow> path \<Rightarrow> 'c world \<Rightarrow> (error + unit) \<times> 'c world" where
  "unlinkSync env p w =
     (let w1 = traced (UnlinkSync p) w
      in case (locate env p, cache_dir w) of
           (Member n, Some es) \<Rightarrow>
             (if map_of es n = None then (Inl ENOENT, w1)
              else (Inr (), w1\<lparr>cache_dir := Some (remove_name n es)\<rparr>))
         | _ \<Rightarrow> (Inl ENOENT, w1))"

text \<open>A file that exists is overwritten in place; a new one is listed last.\<close>

definition put_file :: "string \<Rightarrow> 'a \<Rightarrow> (string \<times> 'a) list \<Rightarrow> (string \<times> 'a) list" where
  "put_file n f es =
     (if map_of es n = None then es @ [(n, f)]
      else map (\<lambda>e. if fst e = n then (n, f) else e) es)"

definition writeFileSync ::
  "'c env \<Rightarrow> path \<Rightarrow> 'c content \<Rightarrow> 'c world \<Rightarrow> (error + unit) \<times> 'c world" where
  "writeFileSync env p data w =
     (let w1 = traced (WriteFileSync p) w
      in case (locate env p, cache_dir w) of
           (Member n, Some es) \<Rightarrow>
             (if write_fault w then (Inl EIO, w1)
              else (Inr (), w1\<lparr>cache_dir := Some (put_file n \<lparr>content = data, mtimeMs = clock w\<rparr> es)\<rparr>))
         | _ \<Rightarrow> (Inl ENOENT, w1))"

subsection \<open>Clock, randomness, JSON, logger\<close>

definition Date_now :: "'c world \<Rightarrow> int" where
  "Date_now w = clock w"

definition randomBytes :: "nat \<Rightarrow> 'c world \<Rightarrow> 8 word list \<times> 'c world" where
  "randomBytes n w = (map (entropy w) [drawn w ..< drawn w + n], w\<lparr>drawn := drawn w + n\<rparr>)"

definition hex_digit :: "nat \<Rightarrow> char" where
  "hex_digit k = ''0123456789abcdef'' ! (k mod 16)"

text \<open>\<^verbatim>\<open>buffer.toString('hex')\<close>: two lower-case digits for each byte.\<close>

definition toString_hex :: "8 word list \<Rightarrow> string" where
  "toString_hex bs = concat (map (\<lambda>b. [hex_digit (unat b div 16), hex_digit (unat b mod 16)]) bs)"

definition JSON_stringify :: "'c env \<Rightarrow> 'c CacheEntry \<Rightarrow> error + 'c content" where
  "JSON_stringify env e = (if list_all (serializable env) (chunks e) then Inr (Entry e) else Inl TypeError)"

definition JSON_parse :: "'c content \<Rightarrow> error + 'c parsed" where
  "JSON_parse c =
     (case c of
        Entry e \<Rightarrow> Inr (ParsedValue (Some (timestamp e)) (Some (ChunkArray (chunks e))))
      | Corrupt \<Rightarrow> Inl SyntaxError
      | Json v \<Rightarrow> Inr v)"

text \<open>The decimal digits of a number, as a template literal prints it.\<close>

fun show_nat :: "nat \<Rightarrow> string" where
  "show_nat n =
     (if n < 10 then [''0123456789'' ! n]
      else show_nat (n div 10) @ [''0123456789'' ! (n mod 10)])"

declare show_nat.simps [simp del]

text \<open>\<^verbatim>\<open>${data.chunks.length}\<close> in a template literal.\<close>

definition length_text :: "'c js_chunks \<Rightarrow> string" where
  "length_text v = (case v of ChunkArray cs \<Rightarrow> show_nat (length cs) | OtherValue j l \<Rightarrow> l)"

text \<open>An error inside a template literal; the exact wording is Node's.\<close>

definition show_error :: "error \<Rightarrow> string" where
  "show_error e =
     (case e of
        ENOENT \<Rightarrow> ''Error: ENOENT''
      | EIO \<Rightarrow> ''Error: EIO''
      | SyntaxError \<Rightarrow> ''SyntaxError''
      | TypeError \<Rightarrow> ''TypeError'')"

text \<open>\<^verbatim>\<open>Logger.debug\<close> and \<^verbatim>\<open>Logger.error\<close>: the call is recorded with its message.\<close>

definition Logger_debug :: "string \<Rightarrow> 'c world \<Rightarrow> 'c world" where
  "Logger_debug message w = w\<lparr>logged := logged w @ [LogDebug message]\<rparr>"

definition Logger_error :: "string \<Rightarrow> 'c world \<Rightarrow> 'c world" where
  "Logger_error message w = w\<lparr>logged := logged w @ [LogError message]\<rparr>"

subsection \<open>\<^verbatim>\<open>chunkCache.ts\<close>\<close>

definition ensureCacheDir :: "'c env \<Rightarrow> 'c world \<Rightarrow> (error + unit) \<times> 'c world" where
  "ensureCacheDir env w =
     (let (ex, w1) = existsSync env (CACHE_DIR env) w
      in case (if \<not> ex then mkdirSync env (CACHE_DIR env) w1 else (Inr (), w1)) of
           (Inl e, w2) \<Rightarrow> (Inl e, w2)
         | (Inr _, w2) \<Rightarrow> (Inr (), snd (chmodSync env (CACHE_DIR env) w2)))"

definition resolveCachePath :: "'c env \<Rightarrow> string \<Rightarrow> path option" where
  "resolveCachePath env cacheKey =
     (if \<not> CACHE_KEY_PATTERN_test cacheKey then None
      else let base = path_resolve (cwd env) [CACHE_DIR env];
               resolved = path_resolve (cwd env) [CACHE_DIR env, cacheKey @ ''.json'']
           in if \<not> prefix (base @ path_sep) resolved then None
              else Some resolved)"

definition is_json :: "string \<Rightarrow> bool" where
  "is_json f = suffix ''.json'' f"

text \<open>The loop of \<^verbatim>\<open>cleanExpiredFiles\<close> over the listing, with its counter.\<close>

fun clean_loop :: "'c env \<Rightarrow> int \<Rightarrow> string list \<Rightarrow> nat \<Rightarrow> 'c world \<Rightarrow> nat \<times> 'c world" where
  "clean_loop env now [] cleaned w = (cleaned, w)"
| "clean_loop env now (file # files) cleaned w =
     (if \<not> is_json file then clean_loop env now files cleaned w
      else let filePath = path_join [CACHE_DIR env, file]
           in case statSync env filePath w of
                (Inl e, w1) \<Rightarrow>
                  clean_loop env now files cleaned
                    (Logger_debug (''Error checking file '' @ file @ '': '' @ show_error e) w1)
              | (Inr stats_mtimeMs, w1) \<Rightarrow>
                  if now - stats_mtimeMs > CACHE_TTL then
                    (case unlinkSync env filePath w1 of
                       (Inl e, w2) \<Rightarrow>
                         clean_loop env now files cleaned
                           (Logger_debug (''Error checking file '' @ file @ '': '' @ show_error e) w2)
                     | (Inr _, w2) \<Rightarrow> clean_loop env now files (cleaned + 1) w2)
                  else clean_loop env now files cleaned w1)"

definition cleanExpiredFiles_try :: "'c env \<Rightarrow> 'c world \<Rightarrow> (error + unit) \<times> 'c world" where
  "cleanExpiredFiles_try env w =
     (case ensureCacheDir env w of
        (Inl e, w1) \<Rightarrow> (Inl e, w1)
      | (Inr _, w1) \<Rightarrow>
          (case readdirSync env (CACHE_DIR env) w1 of
             (Inl e, w2) \<Rightarrow> (Inl e, w2)
           | (Inr files, w2) \<Rightarrow>
               let now = Date_now w2;
                   (cleaned, w3) = clean_loop env now files 0 w2
               in (Inr (),
                   if cleaned > 0
                   then Logger_debug (''Cleaned '' @ show_nat cleaned @ '' expired cache files'') w3
                   else w3)))"

definition cleanExpiredFiles :: "'c env \<Rightarrow> 'c world \<Rightarrow> 'c world" where
  "cleanExpiredFiles env w =
     (case cleanExpiredFiles_try env w of
        (Inl e, w1) \<Rightarrow> Logger_debug (''Cache cleanup error: '' @ show_error e) w1
      | (Inr _, w1) \<Rightarrow> w1)"

text \<open>The objects \<^verbatim>\<open>enforceFileLimits\<close> sorts.\<close>

record file_info =
  name :: string
  path :: path
  mtime :: int

text \<open>
  \<^verbatim>\<open>.map(f => ({ name: f, path: ..., mtime: fs.statSync(...).mtimeMs }))\<close>: the first
  \<^verbatim>\<open>statSync\<close> that throws ends the whole function.
\<close>

fun stat_files :: "'c env \<Rightarrow> string list \<Rightarrow> 'c world \<Rightarrow> (error + file_info list) \<times> 'c world" where
  "stat_files env [] w = (Inr [], w)"
| "stat_files env (f # fs) w =
     (case statSync env (path_join [CACHE_DIR env, f]) w of
        (Inl e, w1) \<Rightarrow> (Inl e, w1)
      | (Inr m, w1) \<Rightarrow>
          (case stat_files env fs w1 of
             (Inl e, w2) \<Rightarrow> (Inl e, w2)
           | (Inr infos, w2) \<Rightarrow>
               (Inr (\<lparr>name = f, path = path_join [CACHE_DIR env, f], mtime = m\<rparr> # infos), w2)))"

text \<open>\<^verbatim>\<open>for (const file of toRemove) { try { fs.unlinkSync(file.path); } catch {} }\<close>\<close>

fun unlink_all :: "'c env \<Rightarrow> file_info list \<Rightarrow> 'c world \<Rightarrow> 'c world" where
  "unlink_all env [] w = w"
| "unlink_all env (file # toRemove) w = unlink_all env toRemove (snd (unlinkSync env (path file) w))"

text \<open>
  \<^verbatim>\<open>Array.prototype.sort\<close> with the comparator \<^verbatim>\<open>a.mtime - b.mtime\<close> is a stable sort by
  ascending \<^verbatim>\<open>mtime\<close>, as \<^const>\<open>sort_key\<close> is.
\<close>

definition enforceFileLimits_try :: "'c env \<Rightarrow> 'c world \<Rightarrow> (error + unit) \<times> 'c world" where
  "enforceFileLimits_try env w =
     (case readdirSync env (CACHE_DIR env) w of
        (Inl e, w1) \<Rightarrow> (Inl e, w1)
      | (Inr listing, w1) \<Rightarrow>
          (case stat_files env (filter is_json listing) w1 of
             (Inl e, w2) \<Rightarrow> (Inl e, w2)
           | (Inr infos, w2) \<Rightarrow>
               let files = sort_key mtime infos
               in if length files > MAX_CACHE_FILES then
                    let toRemove = take (length files - MAX_CACHE_FILES) files;
                        w3 = unlink_all env toRemove w2
                    in (Inr (),
                        Logger_debug (''Removed '' @ show_nat (length toRemove)
                                      @ '' old cache files to enforce limit'') w3)
                  else (Inr (), w2)))"

definition enforceFileLimits :: "'c env \<Rightarrow> 'c world \<Rightarrow> 'c world" where
  "enforceFileLimits env w =
     (case enforceFileLimits_try env w of
        (Inl e, w1) \<Rightarrow> Logger_debug (''Error enforcing file limits: '' @ show_error e) w1
      | (Inr _, w1) \<Rightarrow> w1)"

text \<open>
  The retry loop of \<^verbatim>\<open>cacheChunks\<close>,
  \<^verbatim>\<open>for (let i = 0; i < 5 && filePath && fs.existsSync(filePath); i++)\<close>;
  the first argument is the number of rounds left, \<open>5 - i\<close>.
\<close>

fun retry_loop ::
  "nat \<Rightarrow> 'c env \<Rightarrow> string \<Rightarrow> path option \<Rightarrow> 'c world \<Rightarrow> string \<times> path option \<times> 'c world" where
  "retry_loop 0 env cacheKey filePath w = (cacheKey, filePath, w)"
| "retry_loop (Suc left) env cacheKey filePath w =
     (case filePath of
        None \<Rightarrow> (cacheKey, filePath, w)
      | Some p \<Rightarrow>
          let (ex, w1) = existsSync env p w
          in if ex then
               let (bytes, w2) = randomBytes 4 w1;
                   cacheKey' = toString_hex bytes
               in retry_loop left env cacheKey' (resolveCachePath env cacheKey') w2
             else (cacheKey, filePath, w1))"

definition cacheChunks ::
  "'c env \<Rightarrow> string \<Rightarrow> 'c list \<Rightarrow> 'c world \<Rightarrow> (error + string) \<times> 'c world" where
  "cacheChunks env prompt chunks0 w =
     (case ensureCacheDir env w of
        (Inl e, w1) \<Rightarrow> (Inl e, w1)
      | (Inr _, w1) \<Rightarrow>
          let w2 = cleanExpiredFiles env w1;
              promptHash0 = sha256_hex env prompt;
              (bytes, w3) = randomBytes 4 w2;
              cacheKey0 = toString_hex bytes;
              (cacheKey1, filePath1, w4) =
                 retry_loop 5 env cacheKey0 (resolveCachePath env cacheKey0) w3;
              (cacheKey, filePath) =
                 (if filePath1 = None
                  then (take 8 promptHash0, resolveCachePath env (take 8 promptHash0))
                  else (cacheKey1, filePath1))
          in case filePath of
               None \<Rightarrow>
                 (Inr (take 8 promptHash0),
                  Logger_error ''Failed to generate a safe cache key/path'' w4)
             | Some p \<Rightarrow>
                 let cacheData = \<lparr>chunks = chunks0, timestamp = Date_now w4, promptHash = promptHash0\<rparr>;
                     w5 = (case JSON_stringify env cacheData of
                             Inl e \<Rightarrow> Logger_error (''Failed to cache chunks: '' @ show_error e) w4
                           | Inr data \<Rightarrow>
                               (case writeFileSync env p data w4 of
                                  (Inl e, w') \<Rightarrow>
                                    Logger_error (''Failed to cache chunks: '' @ show_error e) w'
                                | (Inr _, w') \<Rightarrow>
                                    Logger_debug (''Cached '' @ show_nat (length chunks0)
                                                  @ '' chunks to file: '' @ cacheKey @ ''.json'') w'));
                     w6 = enforceFileLimits env w5
                 in (Inr cacheKey, w6))"

text \<open>
  The body of the \<^verbatim>\<open>try\<close> of \<^verbatim>\<open>getChunks\<close>. Reading \<^verbatim>\<open>data.timestamp\<close> throws when
  \<^verbatim>\<open>data\<close> is \<^verbatim>\<open>null\<close>; a comparison with \<^verbatim>\<open>NaN\<close> is false; reading
  \<^verbatim>\<open>data.chunks.length\<close> throws when \<^verbatim>\<open>data.chunks\<close> is \<^verbatim>\<open>undefined\<close> or \<^verbatim>\<open>null\<close>; the value
  returned is \<^verbatim>\<open>data.chunks\<close>, whatever it is.
\<close>

definition getChunks_try ::
  "'c env \<Rightarrow> string \<Rightarrow> path \<Rightarrow> 'c world \<Rightarrow> (error + 'c js_chunks option) \<times> 'c world" where
  "getChunks_try env cacheKey filePath w =
     (let (ex, w1) = existsSync env filePath w
      in if \<not> ex then (Inr None, w1)
         else case readFileSync env filePath w1 of
                (Inl e, w2) \<Rightarrow> (Inl e, w2)
              | (Inr fileContent, w2) \<Rightarrow>
                  (case JSON_parse fileContent of
                     Inl e \<Rightarrow> (Inl e, w2)
                   | Inr ParsedNull \<Rightarrow> (Inl TypeError, w2)
                   | Inr (ParsedValue data_timestamp data_chunks) \<Rightarrow>
                       if (case data_timestamp of
                             None \<Rightarrow> False
                           | Some t \<Rightarrow> Date_now w2 - t > CACHE_TTL) then
                         (case unlinkSync env filePath w2 of
                            (Inl e, w3) \<Rightarrow> (Inl e, w3)
                          | (Inr _, w3) \<Rightarrow>
                              (Inr None,
                               Logger_debug (''Cache expired for '' @ cacheKey @ '', deleted file'') w3))
                       else
                         (case data_chunks of
                            None \<Rightarrow> (Inl TypeError, w2)
                          | Some v \<Rightarrow>
                              (Inr (Some v),
                               Logger_debug (''Cache hit for '' @ cacheKey @ '', returning ''
                                             @ length_text v @ '' chunks'') w2))))"

definition getChunks :: "'c env \<Rightarrow> string \<Rightarrow> 'c world \<Rightarrow> 'c js_chunks option \<times> 'c world" where
  "getChunks env cacheKey w =
     (case resolveCachePath env cacheKey of
        None \<Rightarrow> (None, Logger_debug (''Invalid cache key format: '' @ cacheKey) w)
      | Some filePath \<Rightarrow>
          (case getChunks_try env cacheKey filePath w of
             (Inr r, w1) \<Rightarrow> (r, w1)
           | (Inl e, w1) \<Rightarrow>
               let w2 = Logger_debug (''Cache read error for '' @ cacheKey @ '': '' @ show_error e) w1
               in (None, snd (unlinkSync env filePath w2))))"

record cache_stats =
  size' :: nat
  ttl :: int
  maxSize :: nat
  cacheDir :: path

definition getCacheStats :: "'c env \<Rightarrow> 'c world \<Rightarrow> (error + cache_stats) \<times> 'c world" where
  "getCacheStats env w =
     (case ensureCacheDir env w of
        (Inl e, w1) \<Rightarrow> (Inl e, w1)
      | (Inr _, w1) \<Rightarrow>
          let (r, w2) = readdirSync env (CACHE_DIR env) w1;
              size0 = (case r of Inl e \<Rightarrow> 0 | Inr files \<Rightarrow> length (filter is_json files))
          in (Inr \<lparr>size' = size0, ttl = CACHE_TTL, maxSize = MAX_CACHE_FILES, cacheDir = CACHE_DIR env\<rparr>,
              w2))"

text \<open>The loop of \<^verbatim>\<open>clearCache\<close>: the first \<^verbatim>\<open>unlinkSync\<close> that throws ends it.\<close>

fun clear_loop :: "'c env \<Rightarrow> string list \<Rightarrow> 'c world \<Rightarrow> (error + unit) \<times> 'c world" where
  "clear_loop env [] w = (Inr (), w)"
| "clear_loop env (file # files) w =
     (if is_json file then
        (case unlinkSync env (path_join [CACHE_DIR env, file]) w of
           (Inl e, w1) \<Rightarrow> (Inl e, w1)
         | (Inr _, w1) \<Rightarrow> clear_loop env files w1)
      else clear_loop env files w)"

definition clearCache_try :: "'c env \<Rightarrow> 'c world \<Rightarrow> (error + unit) \<times> 'c world" where
  "clearCache_try env w =
     (case ensureCacheDir env w of
        (Inl e, w1) \<Rightarrow> (Inl e, w1)
      | (Inr _, w1) \<Rightarrow>
          (case readdirSync env (CACHE_DIR env) w1 of
             (Inl e, w2) \<Rightarrow> (Inl e, w2)
           | (Inr files, w2) \<Rightarrow>
               (case clear_loop env files w2 of
                  (Inl e, w3) \<Rightarrow> (Inl e, w3)
                | (Inr _, w3) \<Rightarrow> (Inr (), Logger_debug ''Cache emptied'' w3))))"

definition clearCache :: "'c env \<Rightarrow> 'c world \<Rightarrow> 'c world" where
  "clearCache env w =
     (case clearCache_try env w of
        (Inl e, w1) \<Rightarrow> Logger_error (''Failed to empty cache: '' @ show_error e) w1
      | (Inr _, w1) \<Rightarrow> w1)"

subsection \<open>\<^verbatim>\<open>logger.ts\<close>\<close>

definition shouldLogPrompts :: "'c env \<Rightarrow> bool" where
  "shouldLogPrompts env = (GEMINI_MCP_LOG_PROMPTS env = Some ''1'')"

definition redactString :: "'c env \<Rightarrow> string \<Rightarrow> string" where
  "redactString env v =
     (if shouldLogPrompts env then v
      else let hash = take 12 (sha256_hex env v)
           in ''[REDACTED len='' @ show_nat (length v) @ '' sha256='' @ hash @ '']'')"

section \<open>Notions used in the statements\<close>

text \<open>
  A segment that can stand in a path, and one that is neither \<^verbatim>\<open>.\<close> nor \<^verbatim>\<open>..\<close>: the
  names a directory can hold.
\<close>

definition seg_ok :: "string \<Rightarrow> bool" where
  "seg_ok s = (s \<noteq> [] \<and> CHR ''/'' \<notin> set s)"

definition normal_seg :: "string \<Rightarrow> bool" where
  "normal_seg s = (seg_ok s \<and> s \<noteq> ''.'' \<and> s \<noteq> ''..'')"

text \<open>
  A listing is well formed when its names are distinct and each is a file name; a state is
  well formed when its cache directory, if there is one, is.
\<close>

definition wf_dir :: "(string \<times> 'a) list \<Rightarrow> bool" where
  "wf_dir es = (distinct (map fst es) \<and> list_all normal_seg (map fst es))"

definition wf_world :: "'c world \<Rightarrow> bool" where
  "wf_world w = (case cache_dir w of None \<Rightarrow> True | Some es \<Rightarrow> wf_dir es)"

text \<open>
  The state \<open>w\<close> after a run that left the directory as \<open>d\<close>, made the calls \<open>T\<close> and
  logged the lines \<open>L\<close>: no function of the module changes anything else, the position in
  the random bytes apart.
\<close>

definition advance ::
  "'c world \<Rightarrow> (string \<times> 'c stored_file) list option \<Rightarrow> syscall list \<Rightarrow> log_call list \<Rightarrow> 'c world" where
  "advance w d T L = w\<lparr>cache_dir := d, syscalls := syscalls w @ T, logged := logged w @ L\<rparr>"

text \<open>
  The entries the sweep of \<^verbatim>\<open>cleanExpiredFiles\<close> at time \<open>now\<close> leaves: every entry but the
  \<^verbatim>\<open>.json\<close> files whose modification time is more than the time-to-live back.
\<close>

definition swept :: "int \<Rightarrow> (string \<times> 'c stored_file) list \<Rightarrow> (string \<times> 'c stored_file) list" where
  "swept now es = filter (\<lambda>e. \<not> (is_json (fst e) \<and> now - mtimeMs (snd e) > CACHE_TTL)) es"

text \<open>
  Eviction in the words of the specification: the \<^verbatim>\<open>.json\<close> entries are sorted by ascending
  modification time, and the surplus over the cap, taken from the front, is deleted.
\<close>

definition json_entries :: "(string \<times> 'a) list \<Rightarrow> (string \<times> 'a) list" where
  "json_entries es = filter (\<lambda>e. is_json (fst e)) es"

definition evicted :: "(string \<times> 'c stored_file) list \<Rightarrow> (string \<times> 'c stored_file) list" where
  "evicted es =
     take (length (json_entries es) - MAX_CACHE_FILES)
          (sort_key (\<lambda>e. mtimeMs (snd e)) (json_entries es))"

definition after_eviction :: "(string \<times> 'c stored_file) list \<Rightarrow> (string \<times> 'c stored_file) list" where
  "after_eviction es = filter (\<lambda>e. e \<notin> set (evicted es)) es"

definition info_of :: "'c env \<Rightarrow> string \<times> 'c stored_file \<Rightarrow> file_info" where
  "info_of env e = \<lparr>name = fst e, path = path_join [CACHE_DIR env, fst e], mtime = mtimeMs (snd e)\<rparr>"

text \<open>
  The path \<^verbatim>\<open>resolveCachePath\<close> computes for a key, and the keys of eight lower-case
  hexadecimal digits (\<^verbatim>\<open>^[a-f0-9]{8}$\<close> without the flag \<^verbatim>\<open>i\<close>).
\<close>

definition entry_path :: "'c env \<Rightarrow> string \<Rightarrow> path" where
  "entry_path env k = path_resolve (cwd env) [CACHE_DIR env, k @ ''.json'']"

definition lower_hex :: "char \<Rightarrow> bool" where
  "lower_hex c = (c \<in> set ''0123456789abcdef'')"

definition lowercase_key :: "string \<Rightarrow> bool" where
  "lowercase_key k = (length k = 8 \<and> list_all lower_hex k)"

text \<open>
  The key made of the four random bytes at position \<open>pos\<close>, and the position of the key the
  retry loop ends with: it moves on by four bytes, at most \<open>left\<close> times, while the key at
  hand names a file of the directory \<open>es\<close>.
\<close>

definition draw_key :: "(nat \<Rightarrow> 8 word) \<Rightarrow> nat \<Rightarrow> string" where
  "draw_key rnd pos = toString_hex (map rnd [pos ..< pos + 4])"

fun settle :: "nat \<Rightarrow> (nat \<Rightarrow> string) \<Rightarrow> (string \<times> 'a) list \<Rightarrow> nat \<Rightarrow> nat" where
  "settle 0 key es pos = pos"
| "settle (Suc left) key es pos =
     (if map_of es (key pos @ ''.json'') \<noteq> None then settle left key es (pos + 4) else pos)"

text \<open>
  What a call \<^verbatim>\<open>cacheChunks(prompt, chunks)\<close> in state \<open>w\<close> amounts to: the entries before
  the call, the position of the key it settles on and that key, whether the entry reaches the
  disk, the file written, the directory after the write and before eviction, and whether the
  directory exists or can be created.
\<close>

definition initial_entries :: "'c world \<Rightarrow> (string \<times> 'c stored_file) list" where
  "initial_entries w = (case cache_dir w of None \<Rightarrow> [] | Some es \<Rightarrow> es)"

definition final_pos :: "'c world \<Rightarrow> nat" where
  "final_pos w = settle 5 (draw_key (entropy w)) (swept (clock w) (initial_entries w)) (drawn w)"

definition generated_key :: "'c world \<Rightarrow> string" where
  "generated_key w = draw_key (entropy w) (final_pos w)"

definition persisted :: "'c env \<Rightarrow> 'c list \<Rightarrow> 'c world \<Rightarrow> bool" where
  "persisted env chunks0 w = (list_all (serializable env) chunks0 \<and> \<not> write_fault w)"

definition new_file :: "'c env \<Rightarrow> string \<Rightarrow> 'c list \<Rightarrow> 'c world \<Rightarrow> 'c stored_file" where
  "new_file env prompt chunks0 w =
     \<lparr>content = Entry \<lparr>chunks = chunks0, timestamp = clock w, promptHash = sha256_hex env prompt\<rparr>,
      mtimeMs = clock w\<rparr>"

definition written_entries ::
  "'c env \<Rightarrow> string \<Rightarrow> 'c list \<Rightarrow> 'c world \<Rightarrow> (string \<times> 'c stored_file) list" where
  "written_entries env prompt chunks0 w =
     (if persisted env chunks0 w
      then put_file (generated_key w @ ''.json'') (new_file env prompt chunks0 w)
             (swept (clock w) (initial_entries w))
      else swept (clock w) (initial_entries w))"

definition dir_available :: "'c world \<Rightarrow> bool" where
  "dir_available w = (cache_dir w \<noteq> None \<or> \<not> mkdir_fault w)"

text \<open>
  The number of cache entries in a state; \<open>occupied w k\<close> when a file for the key \<open>k\<close> is
  there and survives the sweep at the start of a write in \<open>w\<close>; the key the \<open>i\<close>-th draw
  of a call in \<open>w\<close> gives, counting from 0.
\<close>

definition json_count :: "'c world \<Rightarrow> nat" where
  "json_count w = length (json_entries (initial_entries w))"

definition occupied :: "'c world \<Rightarrow> string \<Rightarrow> bool" where
  "occupied w k =
     (case map_of (initial_entries w) (k @ ''.json'') of
        None \<Rightarrow> False
      | Some f \<Rightarrow> \<not> clock w - mtimeMs f > CACHE_TTL)"

definition drawn_key :: "'c world \<Rightarrow> nat \<Rightarrow> string" where
  "drawn_key w i = draw_key (entropy w) (drawn w + 4 * i)"

text \<open>
  The redacted form in the words of the specification: a function of the length and of the
  digest prefix alone.
\<close>

definition redaction_of :: "nat \<Rightarrow> string \<Rightarrow> string" where
  "redaction_of len digest = ''[REDACTED len='' @ show_nat len @ '' sha256='' @ digest @ '']''"

text \<open>
  Example inputs. The digest function of the examples agrees with SHA-256 on the prompt
  \<^verbatim>\<open>fix bug\<close>, the only string digested in them. The chunks are numbers. The random bytes
  are 0, 1, 2, ... so that the keys drawn are \<^verbatim>\<open>00010203\<close>, \<^verbatim>\<open>04050607\<close> and so on.
  The file \<open>no_chunks_file\<close> holds \<^verbatim>\<open>{"timestamp":1700000000000}\<close>, the file
  \<open>wrong_shape_file\<close> holds \<^verbatim>\<open>{"chunks":5,"timestamp":1700000000000}\<close>; in the state
  \<open>no_directory\<close> the cache directory is missing and \<^verbatim>\<open>mkdirSync\<close> fails.
\<close>

definition example_digest :: "string \<Rightarrow> string" where
  "example_digest s =
     (if s = ''fix bug'' then ''52f2d71111e2a177e5bee87d6537b321398731c0b0ccefa908d2b84e5a00d29f''
      else replicate 64 (CHR ''0''))"

definition env0 :: "nat env" where
  "env0 = \<lparr>tmpdir = ''/tmp'', cwd = ''/home/user'', sha256_hex = example_digest,
           serializable = (\<lambda>c. True), GEMINI_MCP_LOG_PROMPTS = None\<rparr>"

definition disk_with :: "(string \<times> nat stored_file) list option \<Rightarrow> nat world" where
  "disk_with d = \<lparr>cache_dir = d, write_fault = False, mkdir_fault = False, clock = 1700000000000,
                  entropy = (\<lambda>i. of_nat i), drawn = 0, syscalls = [], logged = []\<rparr>"

definition fresh_file :: "nat list \<Rightarrow> nat stored_file" where
  "fresh_file cs = \<lparr>content = Entry \<lparr>chunks = cs, timestamp = 1700000000000, promptHash = ''''\<rparr>,
                    mtimeMs = 1700000000000\<rparr>"

definition six_taken :: "nat world" where
  "six_taken = disk_with (Some [(''00010203.json'', fresh_file [10]), (''04050607.json'', fresh_file [11]),
      (''08090a0b.json'', fresh_file [12]), (''0c0d0e0f.json'', fresh_file [13]),
      (''10111213.json'', fresh_file [14]), (''14151617.json'', fresh_file [15])])"

definition stale_file :: "nat list \<Rightarrow> nat stored_file" where
  "stale_file cs = \<lparr>content = Entry \<lparr>chunks = cs, timestamp = 1699999399999, promptHash = []\<rparr>,
                    mtimeMs = 1700000000000\<rparr>"

definition corrupt_file :: "nat stored_file" where
  "corrupt_file = \<lparr>content = Corrupt, mtimeMs = 1700000000000\<rparr>"

definition crowded_entries :: "(string \<times> nat stored_file) list" where
  "crowded_entries =
     map (\<lambda>i. (toString_hex [of_nat i, 0, 0, 0] @ ''.json'',
               \<lparr>content = Corrupt, mtimeMs = 1699999999000 + int i\<rparr>)) [0..<52]"

definition crowded :: "nat world" where
  "crowded = disk_with (Some crowded_entries)"

definition no_chunks_file :: "nat stored_file" where
  "no_chunks_file = \<lparr>content = Json (ParsedValue (Some 1700000000000) None), mtimeMs = 1700000000000\<rparr>"

definition wrong_shape_file :: "nat stored_file" where
  "wrong_shape_file =
     \<lparr>content = Json (ParsedValue (Some 1700000000000) (Some (OtherValue ''5'' ''undefined''))),
      mtimeMs = 1700000000000\<rparr>"

definition no_directory :: "nat world" where
  "no_directory = (disk_with None)\<lparr>mkdir_fault := True\<rparr>"

section \<open>Lemmas\<close>

subsection \<open>Paths\<close>

lemma segs_ok: "CHR ''/'' \<notin> set cur \<Longrightarrow> list_all seg_ok (segs cur p)"
  by (induction cur p rule: segs.induct) (auto simp: seg_ok_def)

lemma segs_append_sep: "segs cur (a @ CHR ''/'' # b) = segs cur a @ segs [] b"
  by (induction a arbitrary: cur) auto

lemma segs_no_sep: "CHR ''/'' \<notin> set s \<Longrightarrow> segs cur s = (if cur @ s = [] then [] else [cur @ s])"
  by (induction s arbitrary: cur) auto

lemma segs_single: "seg_ok s \<Longrightarrow> segs [] s = [s]"
  by (simp add: segs_no_sep seg_ok_def)

lemma segs_join_sep: "list_all seg_ok S \<Longrightarrow> segs [] (join_sep S) = S"
proof (induction S rule: join_sep.induct)
  case 1
  then show ?case by simp
next
  case (2 s)
  then show ?case by (simp add: segs_single)
next
  case (3 s t ss)
  then show ?case by (simp add: segs_append_sep segs_single)
qed

lemma join_sep_snoc: "S \<noteq> [] \<Longrightarrow> join_sep (S @ [n]) = join_sep S @ ''/'' @ n"
  by (induction S rule: join_sep.induct) auto

lemma normalize_segs_append:
  "normalize_segs a res (xs @ ys) = normalize_segs a (normalize_segs a res xs) ys"
  by (induction xs arbitrary: res) auto

lemma normalize_segs_normal: "list_all normal_seg S \<Longrightarrow> normalize_segs a res S = res @ S"
  by (induction S arbitrary: res) (auto simp: normal_seg_def)

lemma normalize_segs_keeps_normal:
  "list_all normal_seg res \<Longrightarrow> list_all seg_ok xs \<Longrightarrow> list_all normal_seg (normalize_segs False res xs)"
proof (induction xs arbitrary: res)
  case Nil
  then show ?case by simp
next
  case (Cons s xs)
  have bl: "list_all normal_seg (butlast res)"
    using Cons.prems(1) by (simp add: list_all_iff) (meson in_set_butlastD)
  have s_ok: "seg_ok s" and xs_ok: "list_all seg_ok xs"
    using Cons.prems(2) by simp_all
  show ?case
  proof (cases "s = ''.'' \<or> s = ''..''")
    case True
    then show ?thesis
      using Cons.IH[OF bl xs_ok] Cons.IH[OF Cons.prems(1) xs_ok] by auto
  next
    case False
    then have "normal_seg s"
      using s_ok by (simp add: normal_seg_def)
    then have "list_all normal_seg (res @ [s])"
      using Cons.prems(1) by simp
    then show ?thesis
      using Cons.IH[OF _ xs_ok, of "res @ [s]"] False by simp
  qed
qed

lemma normalize_segs_relative_then_absolute:
  "CHR ''.'' # [] \<notin> set r \<Longrightarrow>
   normalize_segs False res (normalize_segs True r xs) =
   normalize_segs False (normalize_segs False res r) xs"
proof (induction xs arbitrary: r)
  case Nil
  then show ?case by simp
next
  case (Cons s xs)
  show ?case
  proof (cases "s = ''..'' \<and> r \<noteq> [] \<and> last r \<noteq> ''..''")
    case True
    then have r: "r = butlast r @ [last r]" by simp
    have nd: "''.'' \<notin> set (butlast r)" using Cons.prems by (meson in_set_butlastD)
    have lr: "last r \<noteq> ''.''" using True Cons.prems by (metis last_in_set)
    have "normalize_segs False res r = normalize_segs False (normalize_segs False res (butlast r)) [last r]"
      using normalize_segs_append[of False res "butlast r" "[last r]"] r by simp
    also have "\<dots> = normalize_segs False res (butlast r) @ [last r]"
      using True lr by simp
    finally have A: "normalize_segs False res r = normalize_segs False res (butlast r) @ [last r]" .
    show ?thesis using True Cons.IH[OF nd] A by simp
  next
    case False
    then show ?thesis
      using Cons.IH[of "r @ [s]"] Cons.IH[of r] Cons.IH[of "r @ [''..'']"] Cons.prems
        normalize_segs_append[of False res r "[s]"]
      by (auto simp: )
  qed
qed

lemma normal_seg_not_absolute: "seg_ok n \<Longrightarrow> \<not> is_absolute n"
  by (cases n) (auto simp: seg_ok_def is_absolute_def)

lemma join_sep_Cons: "join_sep (s # ss) = s @ (if ss = [] then [] else ''/'' @ join_sep ss)"
  by (cases ss) auto

lemma join_sep_not_absolute:
  "list_all seg_ok S \<Longrightarrow> \<not> is_absolute (join_sep S)"
proof (cases S)
  case Nil
  then show ?thesis by (simp add: is_absolute_def)
next
  case (Cons s ss)
  assume "list_all seg_ok S"
  then have "seg_ok s" using Cons by simp
  then obtain c cs where s: "s = c # cs" and c: "c \<noteq> CHR ''/''"
    by (cases s) (auto simp: seg_ok_def)
  show ?thesis unfolding Cons join_sep_Cons s using c by (simp add: is_absolute_def)
qed

lemma join_sep_nonempty: "list_all seg_ok S \<Longrightarrow> S \<noteq> [] \<Longrightarrow> join_sep S \<noteq> []"
  by (induction S rule: join_sep.induct) (auto simp: seg_ok_def)

lemma last_join_sep: "list_all seg_ok S \<Longrightarrow> S \<noteq> [] \<Longrightarrow> last (join_sep S) = last (last S)"
  by (induction S rule: join_sep.induct) (auto simp: seg_ok_def join_sep_nonempty)

lemma normalize_segs_ok:
  "list_all seg_ok res \<Longrightarrow> list_all seg_ok xs \<Longrightarrow> list_all seg_ok (normalize_segs a res xs)"
proof (induction xs arbitrary: res)
  case Nil
  then show ?case by simp
next
  case (Cons s xs)
  have bl: "list_all seg_ok (butlast res)"
    using Cons.prems(1) by (simp add: list_all_iff) (meson in_set_butlastD)
  have "seg_ok ''..''" by (simp add: seg_ok_def)
  then have dd: "list_all seg_ok (res @ [''..''])"
    using Cons.prems(1) by simp
  have s_ok: "list_all seg_ok (res @ [s])" and xs_ok: "list_all seg_ok xs"
    using Cons.prems by simp_all
  consider (dot) "s = ''.''"
    | (pop) "s = ''..''" "res \<noteq> [] \<and> last res \<noteq> ''..''"
    | (keep) "s = ''..''" "\<not> (res \<noteq> [] \<and> last res \<noteq> ''..'')" "a"
    | (drop) "s = ''..''" "\<not> (res \<noteq> [] \<and> last res \<noteq> ''..'')" "\<not> a"
    | (push) "s \<noteq> ''.''" "s \<noteq> ''..''"
    by blast
  then show ?case
  proof cases
    case dot
    then show ?thesis using Cons.IH[OF Cons.prems(1) xs_ok] by simp
  next
    case pop
    then show ?thesis using Cons.IH[OF bl xs_ok] by simp
  next
    case keep
    then show ?thesis using Cons.IH[OF dd xs_ok] by auto
  next
    case drop
    then show ?thesis using Cons.IH[OF Cons.prems(1) xs_ok] by auto
  next
    case push
    then show ?thesis using Cons.IH[OF s_ok xs_ok] by simp
  qed
qed

lemma resolve_join:
  assumes n: "normal_seg n"
  shows "resolve_from C [path_join [D, n]] = resolve_from C [D] @ [n]"
proof -
  have nok: "seg_ok n" and nne: "n \<noteq> []" and nsl: "CHR ''/'' \<notin> set n"
    using n by (auto simp: normal_seg_def seg_ok_def)
  have lastn: "last n \<noteq> CHR ''/''" using nne nsl by (metis last_in_set)
  define joined where "joined = join_sep (filter (\<lambda>a. a \<noteq> []) [D, n])"
  have joined: "joined = (if D = [] then n else D @ ''/'' @ n)"
    using nne by (simp add: joined_def)
  have jne: "joined \<noteq> []" using nne joined by simp
  have jabs: "is_absolute joined = is_absolute D"
    using nok normal_seg_not_absolute[OF nok] by (cases D) (auto simp: joined is_absolute_def)
  have jsegs: "segs [] joined = segs [] D @ [n]"
    using nok by (auto simp: joined segs_append_sep segs_single)
  have jlast: "last joined \<noteq> CHR ''/''" using lastn nne by (simp add: joined)
  define X where "X = normalize_segs (\<not> is_absolute D) [] (segs [] D) @ [n]"
  have X: "normalize_segs (\<not> is_absolute D) [] (segs [] joined) = X"
    using n by (simp add: jsegs normalize_segs_append X_def normal_seg_def)
  have Xok: "list_all seg_ok X"
    using normalize_segs_ok[of "[]" "segs [] D" "\<not> is_absolute D"] segs_ok[of "[]" D] nok
    by (simp add: X_def)
  have Xne: "X \<noteq> []" by (simp add: X_def)
  have jX: "join_sep X \<noteq> []" using join_sep_nonempty[OF Xok Xne] .
  have "path_join [D, n] = path_normalize joined"
    unfolding path_join_def joined_def[symmetric] using jne by (simp add: Let_def)
  also have "\<dots> = (if is_absolute D then ''/'' else []) @ join_sep X"
    unfolding path_normalize_def using jne jX jlast X jabs by (simp add: Let_def)
  finally have pj: "path_join [D, n] = (if is_absolute D then ''/'' else []) @ join_sep X" .
  show ?thesis
  proof (cases "is_absolute D")
    case True
    have "segs [] (path_join [D, n]) = X"
      using True pj segs_join_sep[OF Xok] by simp
    moreover have "is_absolute (path_join [D, n])"
      using True pj by (simp add: is_absolute_def)
    moreover have "list_all normal_seg X"
      using normalize_segs_keeps_normal[of "[]" "segs [] D"] segs_ok[of "[]" D] n True
      by (simp add: X_def)
    ultimately show ?thesis
      using True by (simp add: normalize_segs_normal X_def)
  next
    case False
    have s: "segs [] (path_join [D, n]) = X"
      using False pj segs_join_sep[OF Xok] by simp
    have a: "\<not> is_absolute (path_join [D, n])"
      using False pj join_sep_not_absolute[OF Xok] by simp
    have "normalize_segs False C X = normalize_segs False C (segs [] D @ [n])"
      using normalize_segs_relative_then_absolute[of "[]" C "segs [] D @ [n]"] False n
      by (simp add: X_def normalize_segs_append normal_seg_def)
    then show ?thesis
      using False s a n by (simp add: normalize_segs_append normal_seg_def)
  qed
qed

lemma resolve_from_append: "resolve_from res (ps @ qs) = resolve_from (resolve_from res ps) qs"
  by (induction ps arbitrary: res) auto

lemma resolve_from_normal:
  "list_all normal_seg res \<Longrightarrow> list_all normal_seg (resolve_from res ps)"
proof (induction ps arbitrary: res)
  case Nil
  then show ?case by simp
next
  case (Cons p ps)
  have "list_all normal_seg (normalize_segs False (if is_absolute p then [] else res) (segs [] p))"
    using normalize_segs_keeps_normal[of "if is_absolute p then [] else res" "segs [] p"]
      segs_ok[of "[]" p] Cons.prems by simp
  then show ?case using Cons.IH by simp
qed

lemma normal_seg_cache_name: "normal_seg ''gemini-mcp-chunks''"
  by (simp add: normal_seg_def seg_ok_def)

lemma base_segs_eq:
  "base_segs env = resolve_from [] [cwd env, tmpdir env] @ [''gemini-mcp-chunks'']"
proof -
  have "base_segs env = resolve_from (resolve_from [] [cwd env]) [CACHE_DIR env]"
    unfolding base_segs_def using resolve_from_append[of "[]" "[cwd env]" "[CACHE_DIR env]"] by simp
  also have "\<dots> = resolve_from (resolve_from [] [cwd env]) [tmpdir env] @ [''gemini-mcp-chunks'']"
    unfolding CACHE_DIR_def by (rule resolve_join[OF normal_seg_cache_name])
  also have "\<dots> = resolve_from [] [cwd env, tmpdir env] @ [''gemini-mcp-chunks'']"
    using resolve_from_append[of "[]" "[cwd env]" "[tmpdir env]"] by simp
  finally show ?thesis .
qed

lemma base_segs_nonempty: "base_segs env \<noteq> []"
  by (simp add: base_segs_eq)

lemma base_segs_normal: "list_all normal_seg (base_segs env)"
  unfolding base_segs_def by (rule resolve_from_normal) simp

lemma locate_CACHE_DIR: "locate env (CACHE_DIR env) = TheDir"
  by (simp add: locate_def base_segs_def)

lemma member_segs: "resolve_from [] [cwd env, CACHE_DIR env, n] = resolve_from (base_segs env) [n]"
  unfolding base_segs_def
  using resolve_from_append[of "[]" "[cwd env, CACHE_DIR env]" "[n]"] by simp

lemma locate_join:
  assumes "normal_seg n"
  shows "locate env (path_join [CACHE_DIR env, n]) = Member n"
proof -
  have "resolve_from [] [cwd env, path_join [CACHE_DIR env, n]]
        = resolve_from (resolve_from [] [cwd env]) [path_join [CACHE_DIR env, n]]"
    using resolve_from_append[of "[]" "[cwd env]" "[path_join [CACHE_DIR env, n]]"] by simp
  also have "\<dots> = resolve_from (resolve_from [] [cwd env]) [CACHE_DIR env] @ [n]"
    by (rule resolve_join[OF assms])
  also have "\<dots> = base_segs env @ [n]"
    unfolding base_segs_def
    using resolve_from_append[of "[]" "[cwd env]" "[CACHE_DIR env]"] by simp
  finally show ?thesis by (simp add: locate_def)
qed

lemma resolve_member_segs:
  assumes "normal_seg n"
  shows "resolve_from [] [cwd env, CACHE_DIR env, n] = base_segs env @ [n]"
proof -
  have "seg_ok n" using assms by (simp add: normal_seg_def)
  then have "resolve_from (base_segs env) [n] = base_segs env @ [n]"
    using assms normal_seg_not_absolute[of n]
    by (simp add: segs_single normal_seg_def)
  then show ?thesis unfolding member_segs .
qed

lemma path_resolve_member:
  assumes "normal_seg n"
  shows "path_resolve (cwd env) [CACHE_DIR env, n]
         = path_resolve (cwd env) [CACHE_DIR env] @ path_sep @ n"
proof -
  have "path_resolve (cwd env) [CACHE_DIR env, n] = ''/'' @ join_sep (base_segs env @ [n])"
    unfolding path_resolve_def resolve_member_segs[OF assms] ..
  also have "\<dots> = ''/'' @ join_sep (base_segs env) @ ''/'' @ n"
    using join_sep_snoc[OF base_segs_nonempty] by simp
  finally show ?thesis unfolding path_resolve_def base_segs_def path_sep_def by simp
qed

lemma resolve_rooted:
  assumes "list_all normal_seg S"
  shows "resolve_from [] [wd, ''/'' @ join_sep S] = S"
proof -
  have ok: "list_all seg_ok S" using assms by (simp add: list_all_iff normal_seg_def)
  have "segs [] (''/'' @ join_sep S) = S" using segs_join_sep[OF ok] by simp
  moreover have "is_absolute (''/'' @ join_sep S)" by (simp add: is_absolute_def)
  ultimately show ?thesis using assms by (simp add: normalize_segs_normal)
qed

lemma path_resolve_idem: "path_resolve wd [path_resolve wd args] = path_resolve wd args"
proof -
  have "list_all normal_seg (resolve_from [] (wd # args))"
    by (rule resolve_from_normal) simp
  then show ?thesis
    unfolding path_resolve_def using resolve_rooted by simp
qed

lemma locate_resolved:
  assumes "normal_seg n"
  shows "locate env (path_resolve (cwd env) [CACHE_DIR env, n]) = Member n"
proof -
  have "list_all normal_seg (base_segs env @ [n])"
    using base_segs_normal assms by simp
  then have "resolve_from [] [cwd env, ''/'' @ join_sep (base_segs env @ [n])] = base_segs env @ [n]"
    by (rule resolve_rooted)
  then show ?thesis
    unfolding path_resolve_def locate_def resolve_member_segs[OF assms] by (simp add: Let_def)
qed

lemma hex_digit_i_no_sep: "hex_digit_i c \<Longrightarrow> c \<noteq> CHR ''/''"
  by (auto simp: hex_digit_i_def)

lemma key_json_normal:
  assumes "CACHE_KEY_PATTERN_test k"
  shows "normal_seg (k @ ''.json'')"
proof -
  have len: "length k = 8" and hx: "list_all hex_digit_i k"
    using assms by (simp_all add: CACHE_KEY_PATTERN_test_def)
  have "CHR ''/'' \<notin> set k"
    using hx hex_digit_i_no_sep by (auto simp: list_all_iff)
  moreover have "length (k @ ''.json'') = 13" using len by simp
  ultimately show ?thesis
    unfolding normal_seg_def seg_ok_def by (auto simp del: length_append)
qed

lemma resolveCachePath_Some:
  assumes "CACHE_KEY_PATTERN_test k"
  shows "resolveCachePath env k = Some (path_resolve (cwd env) [CACHE_DIR env, k @ ''.json''])"
  unfolding resolveCachePath_def
  using assms path_resolve_member[OF key_json_normal[OF assms], of env]
  by (simp add: Let_def)

lemma resolveCachePath_None_iff: "resolveCachePath env k = None \<longleftrightarrow> \<not> CACHE_KEY_PATTERN_test k"
  using resolveCachePath_Some[of k env] by (auto simp: resolveCachePath_def)

subsection \<open>The file-system calls on the cache directory\<close>

lemma advance_fields [simp]:
  "cache_dir (advance w d T L) = d"
  "write_fault (advance w d T L) = write_fault w"
  "mkdir_fault (advance w d T L) = mkdir_fault w"
  "clock (advance w d T L) = clock w"
  "entropy (advance w d T L) = entropy w"
  "drawn (advance w d T L) = drawn w"
  "syscalls (advance w d T L) = syscalls w @ T"
  "logged (advance w d T L) = logged w @ L"
  by (simp_all add: advance_def)

lemma advance_advance [simp]: "advance (advance w d T L) d' T' L' = advance w d' (T @ T') (L @ L')"
  by (simp add: advance_def)

lemma advance_id: "advance w (cache_dir w) [] [] = w"
  by (simp add: advance_def)

lemma traced_advance: "traced c w = advance w (cache_dir w) [c] []"
  by (simp add: traced_def advance_def)

lemma Logger_debug_advance: "Logger_debug m w = advance w (cache_dir w) [] [LogDebug m]"
  by (simp add: Logger_debug_def advance_def)

lemma Logger_error_advance: "Logger_error m w = advance w (cache_dir w) [] [LogError m]"
  by (simp add: Logger_error_def advance_def)

lemma advance_drawn: "(advance w d T L)\<lparr>drawn := k\<rparr> = advance (w\<lparr>drawn := k\<rparr>) d T L"
  by (simp add: advance_def)

lemma advance_clock: "(advance w d T L)\<lparr>clock := k\<rparr> = advance (w\<lparr>clock := k\<rparr>) d T L"
  by (simp add: advance_def)

lemma existsSync_dir:
  "existsSync env (CACHE_DIR env) w = (cache_dir w \<noteq> None, advance w (cache_dir w) [ExistsSync (CACHE_DIR env)] [])"
  by (simp add: existsSync_def path_exists_def locate_CACHE_DIR traced_advance)

lemma lookup_member:
  "locate env p = Member n \<Longrightarrow> cache_dir w = Some es \<Longrightarrow> lookup_file env p w = map_of es n"
  by (simp add: lookup_file_def)

lemma existsSync_member:
  "locate env p = Member n \<Longrightarrow> cache_dir w = Some es \<Longrightarrow>
   existsSync env p w = (map_of es n \<noteq> None, advance w (Some es) [ExistsSync p] [])"
  by (simp add: existsSync_def path_exists_def lookup_member traced_advance)

lemma statSync_member:
  "locate env p = Member n \<Longrightarrow> cache_dir w = Some es \<Longrightarrow>
   statSync env p w =
     ((case map_of es n of None \<Rightarrow> Inl ENOENT | Some f \<Rightarrow> Inr (mtimeMs f)),
      advance w (Some es) [StatSync p] [])"
  by (simp add: statSync_def lookup_member traced_advance)

lemma readFileSync_member:
  "locate env p = Member n \<Longrightarrow> cache_dir w = Some es \<Longrightarrow>
   readFileSync env p w =
     ((case map_of es n of None \<Rightarrow> Inl ENOENT | Some f \<Rightarrow> Inr (content f)),
      advance w (Some es) [ReadFileSync p] [])"
  by (simp add: readFileSync_def lookup_member traced_advance)

lemma unlinkSync_member:
  "locate env p = Member n \<Longrightarrow> cache_dir w = Some es \<Longrightarrow>
   unlinkSync env p w =
     (if map_of es n = None then (Inl ENOENT, advance w (Some es) [UnlinkSync p] [])
      else (Inr (), advance w (Some (remove_name n es)) [UnlinkSync p] []))"
  by (auto simp add: unlinkSync_def traced_def advance_def Let_def)

lemma writeFileSync_member:
  "locate env p = Member n \<Longrightarrow> cache_dir w = Some es \<Longrightarrow>
   writeFileSync env p data w =
     (if write_fault w then (Inl EIO, advance w (Some es) [WriteFileSync p] [])
      else (Inr (), advance w (Some (put_file n \<lparr>content = data, mtimeMs = clock w\<rparr> es))
                      [WriteFileSync p] []))"
  by (auto simp add: writeFileSync_def traced_def advance_def Let_def)

lemma readdirSync_dir:
  "cache_dir w = Some es \<Longrightarrow>
   readdirSync env (CACHE_DIR env) w = (Inr (map fst es), advance w (Some es) [ReaddirSync (CACHE_DIR env)] [])"
  by (simp add: readdirSync_def locate_CACHE_DIR traced_advance)

lemma ensureCacheDir_present:
  "cache_dir w = Some es \<Longrightarrow>
   ensureCacheDir env w =
     (Inr (), advance w (Some es) [ExistsSync (CACHE_DIR env), ChmodSync (CACHE_DIR env)] [])"
  by (simp add: ensureCacheDir_def existsSync_dir chmodSync_def path_exists_def locate_CACHE_DIR
      traced_advance)

lemma ensureCacheDir_absent:
  "cache_dir w = None \<Longrightarrow>
   ensureCacheDir env w =
     (if mkdir_fault w
      then (Inl EIO, advance w None [ExistsSync (CACHE_DIR env), MkdirSync (CACHE_DIR env)] [])
      else (Inr (), advance w (Some [])
              [ExistsSync (CACHE_DIR env), MkdirSync (CACHE_DIR env), ChmodSync (CACHE_DIR env)] []))"
  by (auto simp add: ensureCacheDir_def existsSync_def path_exists_def mkdirSync_def
      locate_CACHE_DIR chmodSync_def traced_def advance_def Let_def)

subsection \<open>The expiry sweep\<close>

lemma wf_dir_filter: "wf_dir es \<Longrightarrow> wf_dir (filter P es)"
  by (simp add: wf_dir_def distinct_map_filter list_all_iff)

lemma wf_dir_remove_name: "wf_dir es \<Longrightarrow> wf_dir (remove_name n es)"
  by (simp add: remove_name_def wf_dir_filter)

lemma map_of_distinct_snd:
  "distinct (map fst es) \<Longrightarrow> map_of es n = Some f \<Longrightarrow> e \<in> set es \<Longrightarrow> fst e = n \<Longrightarrow> snd e = f"
  by (metis map_of_is_SomeI option.inject prod.collapse)

lemma map_of_None_notin: "map_of es n = None \<Longrightarrow> e \<in> set es \<Longrightarrow> fst e \<noteq> n"
  by (metis map_of_eq_None_iff image_eqI)

lemma clean_loop_advance:
  assumes "cache_dir w = Some es" "distinct (map fst es)" "list_all normal_seg files"
  shows "\<exists>c T L. clean_loop env now files cleaned w =
           (c, advance w (Some (filter (\<lambda>e. \<not> (fst e \<in> set files \<and> is_json (fst e)
                                              \<and> now - mtimeMs (snd e) > CACHE_TTL)) es)) T L)"
  using assms
proof (induction files arbitrary: w es cleaned)
  case Nil
  have "clean_loop env now [] cleaned w = (cleaned, advance w (Some es) [] [])"
    using advance_id[of w] Nil.prems(1) by simp
  then show ?case by auto
next
  case (Cons fname files)
  have nf: "normal_seg fname" and nfs: "list_all normal_seg files"
    using Cons.prems(3) by simp_all
  define p where "p = path_join [CACHE_DIR env, fname]"
  have loc: "locate env p = Member fname"
    unfolding p_def by (rule locate_join[OF nf])
  let ?P = "\<lambda>S e. \<not> (fst e \<in> S \<and> is_json (fst e) \<and> now - mtimeMs (snd e) > CACHE_TTL)"
  show ?case
  proof (cases "is_json fname")
    case False
    have eq: "filter (?P (set (fname # files))) es = filter (?P (set files)) es"
      using False by (intro filter_cong) auto
    have step: "clean_loop env now (fname # files) cleaned w = clean_loop env now files cleaned w"
      using False by simp
    from Cons.IH[OF Cons.prems(1,2) nfs, of cleaned]
    show ?thesis unfolding eq step .
  next
    case True
    note st = statSync_member[OF loc Cons.prems(1)]
    show ?thesis
    proof (cases "map_of es fname")
      case None
      define w1 where "w1 = advance w (Some es) [StatSync p]
                      [LogDebug (''Error checking file '' @ fname @ '': '' @ show_error ENOENT)]"
      have d1: "cache_dir w1 = Some es" by (simp add: w1_def)
      have step: "clean_loop env now (fname # files) cleaned w = clean_loop env now files cleaned w1"
        using True None st by (simp add: Let_def p_def[symmetric] Logger_debug_advance w1_def)
      have eq: "filter (?P (set (fname # files))) es = filter (?P (set files)) es"
        using map_of_None_notin[OF None] by (intro filter_cong) auto
      from Cons.IH[OF d1 Cons.prems(2) nfs, of cleaned]
      obtain c T L where "clean_loop env now files cleaned w1 = (c, advance w1 (Some (filter (?P (set files)) es)) T L)"
        by blast
      then have "clean_loop env now (fname # files) cleaned w
          = (c, advance w (Some (filter (?P (set (fname # files))) es)) ([StatSync p] @ T)
                  ([LogDebug (''Error checking file '' @ fname @ '': '' @ show_error ENOENT)] @ L))"
        unfolding step eq by (simp add: w1_def)
      then show ?thesis by blast
    next
      case (Some f)
      show ?thesis
      proof (cases "now - mtimeMs f > CACHE_TTL")
        case exp: True
        define w1 where "w1 = advance w (Some es) [StatSync p] []"
        define w2 where "w2 = advance w (Some (remove_name fname es)) [StatSync p, UnlinkSync p] []"
        have d2: "cache_dir w2 = Some (remove_name fname es)" by (simp add: w2_def)
        have dist2: "distinct (map fst (remove_name fname es))"
          using Cons.prems(2) by (simp add: remove_name_def distinct_map_filter)
        have un: "unlinkSync env p w1 = (Inr (), w2)"
          using unlinkSync_member[OF loc, of w1 es] Some by (simp add: w1_def w2_def)
        have step: "clean_loop env now (fname # files) cleaned w = clean_loop env now files (cleaned + 1) w2"
          using True Some st exp un by (simp add: Let_def p_def[symmetric] w1_def[symmetric])
        have eq: "filter (?P (set (fname # files))) es = filter (?P (set files)) (remove_name fname es)"
          unfolding remove_name_def filter_filter
          using map_of_distinct_snd[OF Cons.prems(2) Some] exp True
          by (intro filter_cong) auto
        from Cons.IH[OF d2 dist2 nfs, of "cleaned + 1"]
        obtain c T L where "clean_loop env now files (cleaned + 1) w2
             = (c, advance w2 (Some (filter (?P (set files)) (remove_name fname es))) T L)"
          by blast
        then have "clean_loop env now (fname # files) cleaned w
          = (c, advance w (Some (filter (?P (set (fname # files))) es)) ([StatSync p, UnlinkSync p] @ T) ([] @ L))"
          unfolding step eq by (simp add: w2_def)
        then show ?thesis by blast
      next
        case nexp: False
        define w1 where "w1 = advance w (Some es) [StatSync p] []"
        have d1: "cache_dir w1 = Some es" by (simp add: w1_def)
        have step: "clean_loop env now (fname # files) cleaned w = clean_loop env now files cleaned w1"
          using True Some st nexp by (simp add: Let_def p_def[symmetric] w1_def[symmetric])
        have eq: "filter (?P (set (fname # files))) es = filter (?P (set files)) es"
          using map_of_distinct_snd[OF Cons.prems(2) Some] nexp
          by (intro filter_cong) auto
        from Cons.IH[OF d1 Cons.prems(2) nfs, of cleaned]
        obtain c T L where "clean_loop env now files cleaned w1 = (c, advance w1 (Some (filter (?P (set files)) es)) T L)"
          by blast
        then have "clean_loop env now (fname # files) cleaned w
          = (c, advance w (Some (filter (?P (set (fname # files))) es)) ([StatSync p] @ T) ([] @ L))"
          unfolding step eq by (simp add: w1_def)
        then show ?thesis by blast
      qed
    qed
  qed
qed

lemma cleanExpiredFiles_advance:
  assumes "cache_dir w = Some es" "wf_dir es"
  shows "\<exists>T L. cleanExpiredFiles env w = advance w (Some (swept (clock w) es)) T L"
proof -
  define w2 where "w2 = advance w (Some es)
      [ExistsSync (CACHE_DIR env), ChmodSync (CACHE_DIR env), ReaddirSync (CACHE_DIR env)] []"
  have d2: "cache_dir w2 = Some es" by (simp add: w2_def)
  have pre: "ensureCacheDir env w = (Inr (), advance w (Some es) [ExistsSync (CACHE_DIR env), ChmodSync (CACHE_DIR env)] [])"
    by (rule ensureCacheDir_present[OF assms(1)])
  have rd: "readdirSync env (CACHE_DIR env)
       (advance w (Some es) [ExistsSync (CACHE_DIR env), ChmodSync (CACHE_DIR env)] []) = (Inr (map fst es), w2)"
    using readdirSync_dir[of "advance w (Some es) [ExistsSync (CACHE_DIR env), ChmodSync (CACHE_DIR env)] []" es env]
    by (simp add: w2_def)
  have eq: "filter (\<lambda>e. \<not> (fst e \<in> set (map fst es) \<and> is_json (fst e)
                        \<and> clock w - mtimeMs (snd e) > CACHE_TTL)) es = swept (clock w) es"
    unfolding swept_def by (intro filter_cong) auto
  from clean_loop_advance[OF d2, of "map fst es" env "clock w" 0] assms(2)
  obtain c T L where cl: "clean_loop env (clock w) (map fst es) 0 w2 = (c, advance w2 (Some (swept (clock w) es)) T L)"
    unfolding eq wf_dir_def by blast
  have now: "Date_now w2 = clock w" by (simp add: Date_now_def w2_def)
  show ?thesis
    unfolding cleanExpiredFiles_def cleanExpiredFiles_try_def pre
    using rd cl now
    by (auto simp add: Let_def Logger_debug_advance w2_def)
qed

subsection \<open>Eviction\<close>

lemma insort_key_map: "insort_key f (g x) (map g xs) = map g (insort_key (\<lambda>y. f (g y)) x xs)"
  by (induction xs) auto

lemma sort_key_map: "sort_key f (map g xs) = map g (sort_key (\<lambda>y. f (g y)) xs)"
  by (induction xs) (auto simp: insort_key_map)

lemma stat_files_advance:
  assumes "cache_dir w = Some es" "distinct (map fst es)" "list_all normal_seg (map fst xs)"
    "set xs \<subseteq> set es"
  shows "\<exists>T. stat_files env (map fst xs) w = (Inr (map (info_of env) xs), advance w (Some es) T [])"
  using assms
proof (induction xs arbitrary: w)
  case Nil
  have "stat_files env (map fst []) w = (Inr (map (info_of env) []), advance w (Some es) [] [])"
    using advance_id[of w] Nil.prems(1) by simp
  then show ?case by blast
next
  case (Cons x xs)
  define p where "p = path_join [CACHE_DIR env, fst x]"
  have nx: "normal_seg (fst x)" using Cons.prems(3) by simp
  have loc: "locate env p = Member (fst x)" unfolding p_def by (rule locate_join[OF nx])
  have "x \<in> set es" using Cons.prems(4) by simp
  then have mo: "map_of es (fst x) = Some (snd x)"
    using Cons.prems(2) by (metis map_of_is_SomeI prod.collapse)
  define w1 where "w1 = advance w (Some es) [StatSync p] []"
  have st: "statSync env p w = (Inr (mtimeMs (snd x)), w1)"
    using statSync_member[OF loc Cons.prems(1)] mo by (simp add: w1_def)
  have d1: "cache_dir w1 = Some es" by (simp add: w1_def)
  from Cons.IH[OF d1 Cons.prems(2)] Cons.prems(3,4)
  obtain T where "stat_files env (map fst xs) w1 = (Inr (map (info_of env) xs), advance w1 (Some es) T [])"
    by auto
  then have "stat_files env (map fst (x # xs)) w
      = (Inr (map (info_of env) (x # xs)), advance w (Some es) ([StatSync p] @ T) [])"
    using st by (simp add: p_def[symmetric] info_of_def) (simp add: w1_def)
  then show ?case by blast
qed

lemma unlink_all_advance:
  assumes "cache_dir w = Some es" "list_all normal_seg (map fst xs)"
  shows "\<exists>T. unlink_all env (map (info_of env) xs) w
           = advance w (Some (filter (\<lambda>e. fst e \<notin> fst ` set xs) es)) T []"
  using assms
proof (induction xs arbitrary: w es)
  case Nil
  have "unlink_all env (map (info_of env) []) w = advance w (Some (filter (\<lambda>e. fst e \<notin> fst ` set []) es)) [] []"
    using advance_id[of w] Nil.prems(1) by simp
  then show ?case by blast
next
  case (Cons x xs)
  define p where "p = path_join [CACHE_DIR env, fst x]"
  have nx: "normal_seg (fst x)" and nxs: "list_all normal_seg (map fst xs)"
    using Cons.prems(2) by simp_all
  have loc: "locate env p = Member (fst x)" unfolding p_def by (rule locate_join[OF nx])
  define w1 where "w1 = advance w (Some (remove_name (fst x) es)) [UnlinkSync p] []"
  have un: "snd (unlinkSync env p w) = w1"
  proof (cases "map_of es (fst x)")
    case None
    then have "remove_name (fst x) es = es"
      unfolding remove_name_def using map_of_None_notin[OF None] by (simp add: filter_id_conv)
    then show ?thesis using unlinkSync_member[OF loc Cons.prems(1)] None by (simp add: w1_def)
  next
    case (Some f)
    then show ?thesis using unlinkSync_member[OF loc Cons.prems(1)] by (simp add: w1_def)
  qed
  have d1: "cache_dir w1 = Some (remove_name (fst x) es)" by (simp add: w1_def)
  have eq: "filter (\<lambda>e. fst e \<notin> fst ` set xs) (remove_name (fst x) es)
            = filter (\<lambda>e. fst e \<notin> fst ` set (x # xs)) es"
    unfolding remove_name_def filter_filter by (intro filter_cong) auto
  from Cons.IH[OF d1 nxs]
  obtain T where "unlink_all env (map (info_of env) xs) w1
      = advance w1 (Some (filter (\<lambda>e. fst e \<notin> fst ` set (x # xs)) es)) T []"
    unfolding eq by blast
  then have "unlink_all env (map (info_of env) (x # xs)) w
      = advance w (Some (filter (\<lambda>e. fst e \<notin> fst ` set (x # xs)) es)) ([UnlinkSync p] @ T) []"
    using un by (simp add: info_of_def p_def[symmetric]) (simp add: w1_def)
  then show ?case by blast
qed

lemma length_evicted: "length (evicted es) = length (json_entries es) - MAX_CACHE_FILES"
  by (simp add: evicted_def)

lemma set_evicted: "set (evicted es) \<subseteq> set (json_entries es)"
  unfolding evicted_def by (metis set_take_subset set_sort)

lemma json_entries_subset: "set (json_entries es) \<subseteq> set es"
  by (simp add: json_entries_def)

lemma filter_names_evicted:
  assumes "distinct (map fst es)"
  shows "filter (\<lambda>e. fst e \<notin> fst ` set (evicted es)) es = after_eviction es"
  unfolding after_eviction_def
proof (intro filter_cong refl)
  fix e assume e: "e \<in> set es"
  have sub: "set (evicted es) \<subseteq> set es"
    using set_evicted json_entries_subset by blast
  show "(fst e \<notin> fst ` set (evicted es)) = (e \<notin> set (evicted es))"
  proof
    assume "fst e \<notin> fst ` set (evicted es)"
    then show "e \<notin> set (evicted es)" by auto
  next
    assume n: "e \<notin> set (evicted es)"
    show "fst e \<notin> fst ` set (evicted es)"
    proof
      assume "fst e \<in> fst ` set (evicted es)"
      then obtain e' where e': "e' \<in> set (evicted es)" "fst e' = fst e" by auto
      then have "e' \<in> set es" using sub by blast
      then have "e' = e" using e e'(2) assms by (metis eq_key_imp_eq_value prod.collapse)
      then show False using n e'(1) by simp
    qed
  qed
qed

lemma enforceFileLimits_advance:
  assumes "cache_dir w = Some es" "wf_dir es"
  shows "\<exists>T L. enforceFileLimits env w = advance w (Some (after_eviction es)) T L"
proof -
  have dist: "distinct (map fst es)" and norm: "list_all normal_seg (map fst es)"
    using assms(2) by (simp_all add: wf_dir_def)
  define w1 where "w1 = advance w (Some es) [ReaddirSync (CACHE_DIR env)] []"
  have rd: "readdirSync env (CACHE_DIR env) w = (Inr (map fst es), w1)"
    using readdirSync_dir[OF assms(1)] by (simp add: w1_def)
  have d1: "cache_dir w1 = Some es" by (simp add: w1_def)
  have names: "filter is_json (map fst es) = map fst (json_entries es)"
    by (simp add: json_entries_def filter_map comp_def)
  have nj: "list_all normal_seg (map fst (json_entries es))"
    using norm by (simp add: json_entries_def list_all_iff)
  obtain T2 where st: "stat_files env (map fst (json_entries es)) w1
      = (Inr (map (info_of env) (json_entries es)), advance w1 (Some es) T2 [])"
    using stat_files_advance[OF d1 dist nj json_entries_subset] by blast
  define w2 where "w2 = advance w1 (Some es) T2 []"
  have d2: "cache_dir w2 = Some es" by (simp add: w2_def)
  have srt: "sort_key mtime (map (info_of env) (json_entries es))
      = map (info_of env) (sort_key (\<lambda>e. mtimeMs (snd e)) (json_entries es))"
    by (simp add: sort_key_map info_of_def)
  show ?thesis
  proof (cases "length (json_entries es) > MAX_CACHE_FILES")
    case False
    then have "evicted es = []" by (simp add: evicted_def)
    then have ae: "after_eviction es = es" by (simp add: after_eviction_def)
    have "enforceFileLimits env w = advance w (Some es) ([ReaddirSync (CACHE_DIR env)] @ T2) []"
      using False
      by (simp add: enforceFileLimits_def enforceFileLimits_try_def rd names st Let_def srt)
         (simp add: w1_def)
    then show ?thesis unfolding ae by blast
  next
    case True
    have tk: "take (length (json_entries es) - MAX_CACHE_FILES)
               (map (info_of env) (sort_key (\<lambda>e. mtimeMs (snd e)) (json_entries es)))
             = map (info_of env) (evicted es)"
      by (simp add: evicted_def take_map)
    have ne: "list_all normal_seg (map fst (evicted es))"
      using nj set_evicted[of es] by (auto simp: list_all_iff)
    obtain T3 where ul: "unlink_all env (map (info_of env) (evicted es)) w2
        = advance w2 (Some (after_eviction es)) T3 []"
      using unlink_all_advance[OF d2 ne, of env] unfolding filter_names_evicted[OF dist] by blast
    have "enforceFileLimits env w = advance w (Some (after_eviction es))
            ([ReaddirSync (CACHE_DIR env)] @ T2 @ T3)
            [LogDebug (''Removed '' @ show_nat (length (evicted es)) @ '' old cache files to enforce limit'')]"
      using True
      by (simp add: enforceFileLimits_def enforceFileLimits_try_def rd names st Let_def srt tk
            w2_def[symmetric] ul Logger_debug_advance length_evicted)
         (simp add: w2_def w1_def)
    then show ?thesis by blast
  qed
qed

lemma distinct_entries: "distinct (map fst es) \<Longrightarrow> distinct es"
  by (simp add: distinct_map)

lemma json_entries_after_eviction:
  "json_entries (after_eviction es) = filter (\<lambda>e. e \<notin> set (evicted es)) (json_entries es)"
  unfolding json_entries_def after_eviction_def filter_filter by (intro filter_cong) auto

lemma count_after_eviction:
  assumes "distinct (map fst es)"
  shows "length (json_entries (after_eviction es)) = min (length (json_entries es)) MAX_CACHE_FILES"
proof -
  have dj: "distinct (json_entries es)"
    using distinct_entries[OF assms] by (simp add: json_entries_def)
  have de: "distinct (evicted es)"
    unfolding evicted_def using dj by (simp add: distinct_take)
  have "length (json_entries (after_eviction es))
      = card ({e. e \<notin> set (evicted es)} \<inter> set (json_entries es))"
    unfolding json_entries_after_eviction by (rule distinct_length_filter[OF dj])
  also have "{e. e \<notin> set (evicted es)} \<inter> set (json_entries es) = set (json_entries es) - set (evicted es)"
    by auto
  also have "card \<dots> = card (set (json_entries es)) - card (set (evicted es))"
    by (rule card_Diff_subset) (simp_all add: set_evicted)
  also have "\<dots> = length (json_entries es) - length (evicted es)"
    using dj de by (simp add: distinct_card)
  finally show ?thesis by (simp add: length_evicted)
qed

lemma evicted_oldest:
  assumes "a \<in> set (evicted es)" "b \<in> set (json_entries es)" "b \<notin> set (evicted es)"
  shows "mtimeMs (snd a) \<le> mtimeMs (snd b)"
proof -
  define S where "S = sort_key (\<lambda>e. mtimeMs (snd e)) (json_entries es)"
  define k where "k = length (json_entries es) - MAX_CACHE_FILES"
  have ev: "evicted es = take k S" by (simp add: evicted_def S_def k_def)
  have "b \<in> set S" using assms(2) by (simp add: S_def)
  then have "b \<in> set (take k S) \<union> set (drop k S)"
    by (metis append_take_drop_id set_append)
  then have b: "b \<in> set (drop k S)" using assms(3) ev by simp
  have "sorted (map (\<lambda>e. mtimeMs (snd e)) S)" by (simp add: S_def)
  then have "sorted (map (\<lambda>e. mtimeMs (snd e)) (take k S) @ map (\<lambda>e. mtimeMs (snd e)) (drop k S))"
    by (metis append_take_drop_id map_append)
  then show ?thesis
    using assms(1) b unfolding ev sorted_append by auto
qed

subsection \<open>Clearing and statistics\<close>

lemma clear_loop_advance:
  assumes "cache_dir w = Some es" "distinct (map fst es)" "list_all normal_seg (map fst xs)"
    "distinct (map fst xs)" "set xs \<subseteq> set es"
  shows "\<exists>T. clear_loop env (map fst xs) w
           = (Inr (), advance w (Some (filter (\<lambda>e. \<not> (fst e \<in> fst ` set xs \<and> is_json (fst e))) es)) T [])"
  using assms
proof (induction xs arbitrary: w es)
  case Nil
  have "clear_loop env (map fst []) w
      = (Inr (), advance w (Some (filter (\<lambda>e. \<not> (fst e \<in> fst ` set [] \<and> is_json (fst e))) es)) [] [])"
    using advance_id[of w] Nil.prems(1) by simp
  then show ?case by blast
next
  case (Cons x xs)
  have nx: "normal_seg (fst x)" and nxs: "list_all normal_seg (map fst xs)"
    using Cons.prems(3) by simp_all
  have dxs: "distinct (map fst xs)" and xnot: "fst x \<notin> fst ` set xs"
    using Cons.prems(4) by simp_all
  show ?case
  proof (cases "is_json (fst x)")
    case False
    have eq: "filter (\<lambda>e. \<not> (fst e \<in> fst ` set (x # xs) \<and> is_json (fst e))) es
            = filter (\<lambda>e. \<not> (fst e \<in> fst ` set xs \<and> is_json (fst e))) es"
      using False by (intro filter_cong) auto
    have step: "clear_loop env (map fst (x # xs)) w = clear_loop env (map fst xs) w"
      using False by simp
    from Cons.IH[OF Cons.prems(1,2) nxs dxs] Cons.prems(5)
    show ?thesis unfolding eq step by simp
  next
    case True
    define p where "p = path_join [CACHE_DIR env, fst x]"
    have loc: "locate env p = Member (fst x)" unfolding p_def by (rule locate_join[OF nx])
    have "x \<in> set es" using Cons.prems(5) by simp
    then have mo: "map_of es (fst x) = Some (snd x)"
      using Cons.prems(2) by (metis map_of_is_SomeI prod.collapse)
    define w1 where "w1 = advance w (Some (remove_name (fst x) es)) [UnlinkSync p] []"
    have un: "unlinkSync env p w = (Inr (), w1)"
      using unlinkSync_member[OF loc Cons.prems(1)] mo by (simp add: w1_def)
    have d1: "cache_dir w1 = Some (remove_name (fst x) es)" by (simp add: w1_def)
    have dist1: "distinct (map fst (remove_name (fst x) es))"
      using Cons.prems(2) by (simp add: remove_name_def distinct_map_filter)
    have sub1: "set xs \<subseteq> set (remove_name (fst x) es)"
    proof
      fix y assume y: "y \<in> set xs"
      then have "fst y \<noteq> fst x" using xnot by (metis imageI)
      moreover have "y \<in> set es" using y Cons.prems(5) by auto
      ultimately show "y \<in> set (remove_name (fst x) es)" by (simp add: remove_name_def)
    qed
    have eq: "filter (\<lambda>e. \<not> (fst e \<in> fst ` set xs \<and> is_json (fst e))) (remove_name (fst x) es)
            = filter (\<lambda>e. \<not> (fst e \<in> fst ` set (x # xs) \<and> is_json (fst e))) es"
      unfolding remove_name_def filter_filter using True by (intro filter_cong) auto
    have step: "clear_loop env (map fst (x # xs)) w = clear_loop env (map fst xs) w1"
      using True un by (simp add: p_def[symmetric])
    from Cons.IH[OF d1 dist1 nxs dxs sub1]
    obtain T where "clear_loop env (map fst xs) w1
        = (Inr (), advance w1 (Some (filter (\<lambda>e. \<not> (fst e \<in> fst ` set (x # xs) \<and> is_json (fst e))) es)) T [])"
      unfolding eq by blast
    then have "clear_loop env (map fst (x # xs)) w
        = (Inr (), advance w (Some (filter (\<lambda>e. \<not> (fst e \<in> fst ` set (x # xs) \<and> is_json (fst e))) es))
                     ([UnlinkSync p] @ T) [])"
      unfolding step by (simp add: w1_def)
    then show ?thesis by blast
  qed
qed

lemma clearCache_present:
  assumes "cache_dir w = Some es" "wf_dir es"
  shows "\<exists>T L. clearCache env w = advance w (Some (filter (\<lambda>e. \<not> is_json (fst e)) es)) T L"
proof -
  have dist: "distinct (map fst es)" and norm: "list_all normal_seg (map fst es)"
    using assms(2) by (simp_all add: wf_dir_def)
  define w1 where "w1 = advance w (Some es) [ExistsSync (CACHE_DIR env), ChmodSync (CACHE_DIR env)] []"
  define w2 where "w2 = advance w (Some es)
      [ExistsSync (CACHE_DIR env), ChmodSync (CACHE_DIR env), ReaddirSync (CACHE_DIR env)] []"
  have pre: "ensureCacheDir env w = (Inr (), w1)"
    unfolding w1_def by (rule ensureCacheDir_present[OF assms(1)])
  have rd: "readdirSync env (CACHE_DIR env) w1 = (Inr (map fst es), w2)"
    using readdirSync_dir[of w1 es env] by (simp add: w1_def w2_def)
  have d2: "cache_dir w2 = Some es" by (simp add: w2_def)
  have eq: "filter (\<lambda>e. \<not> (fst e \<in> fst ` set es \<and> is_json (fst e))) es = filter (\<lambda>e. \<not> is_json (fst e)) es"
    by (intro filter_cong) auto
  obtain T where cl: "clear_loop env (map fst es) w2
      = (Inr (), advance w2 (Some (filter (\<lambda>e. \<not> is_json (fst e)) es)) T [])"
    using clear_loop_advance[OF d2 dist norm dist, of env] unfolding eq by blast
  have "clearCache env w = advance w (Some (filter (\<lambda>e. \<not> is_json (fst e)) es))
      ([ExistsSync (CACHE_DIR env), ChmodSync (CACHE_DIR env), ReaddirSync (CACHE_DIR env)] @ T)
      [LogDebug ''Cache emptied'']"
    by (simp add: clearCache_def clearCache_try_def pre rd cl Logger_debug_advance) (simp add: w2_def)
  then show ?thesis by blast
qed

lemma clearCache_created:
  assumes "cache_dir w = None" "\<not> mkdir_fault w"
  shows "\<exists>T L. clearCache env w = advance w (Some []) T L"
proof -
  define w1 where "w1 = advance w (Some [])
      [ExistsSync (CACHE_DIR env), MkdirSync (CACHE_DIR env), ChmodSync (CACHE_DIR env)] []"
  have pre: "ensureCacheDir env w = (Inr (), w1)"
    using ensureCacheDir_absent[OF assms(1), of env] assms(2) by (simp add: w1_def)
  have rd: "readdirSync env (CACHE_DIR env) w1 = (Inr [], advance w1 (Some []) [ReaddirSync (CACHE_DIR env)] [])"
    using readdirSync_dir[of w1 "[]" env] by (simp add: w1_def)
  have "clearCache env w = advance w (Some [])
      [ExistsSync (CACHE_DIR env), MkdirSync (CACHE_DIR env), ChmodSync (CACHE_DIR env), ReaddirSync (CACHE_DIR env)]
      [LogDebug ''Cache emptied'']"
    by (simp add: clearCache_def clearCache_try_def pre rd Logger_debug_advance) (simp add: w1_def)
  then show ?thesis by blast
qed

lemma getCacheStats_present:
  assumes "cache_dir w = Some es"
  shows "fst (getCacheStats env w)
         = Inr \<lparr>size' = length (filter is_json (map fst es)), ttl = CACHE_TTL,
                maxSize = MAX_CACHE_FILES, cacheDir = CACHE_DIR env\<rparr>"
proof -
  define w1 where "w1 = advance w (Some es) [ExistsSync (CACHE_DIR env), ChmodSync (CACHE_DIR env)] []"
  have pre: "ensureCacheDir env w = (Inr (), w1)"
    unfolding w1_def by (rule ensureCacheDir_present[OF assms(1)])
  have rd: "readdirSync env (CACHE_DIR env) w1
      = (Inr (map fst es), advance w1 (Some es) [ReaddirSync (CACHE_DIR env)] [])"
    using readdirSync_dir[of w1 es env] by (simp add: w1_def)
  show ?thesis by (simp add: getCacheStats_def pre rd)
qed

subsection \<open>Reading an entry\<close>

lemma resolveCachePath_entry:
  "CACHE_KEY_PATTERN_test k \<Longrightarrow> resolveCachePath env k = Some (entry_path env k)"
  unfolding entry_path_def by (rule resolveCachePath_Some)

lemma locate_entry:
  "CACHE_KEY_PATTERN_test k \<Longrightarrow> locate env (entry_path env k) = Member (k @ ''.json'')"
  unfolding entry_path_def by (rule locate_resolved[OF key_json_normal])

lemma map_of_remove_name: "map_of (remove_name n es) n = None"
  by (induction es) (auto simp: remove_name_def)

lemma getChunks_invalid:
  "\<not> CACHE_KEY_PATTERN_test k \<Longrightarrow>
   getChunks env k w = (None, Logger_debug (''Invalid cache key format: '' @ k) w)"
  by (simp add: getChunks_def resolveCachePath_def)

lemma getChunks_no_dir:
  assumes "CACHE_KEY_PATTERN_test k" "cache_dir w = None"
  shows "getChunks env k w = (None, advance w None [ExistsSync (entry_path env k)] [])"
  using assms
  by (simp add: getChunks_def resolveCachePath_entry getChunks_try_def existsSync_def
      path_exists_def locate_entry lookup_file_def traced_advance)

lemma getChunks_missing:
  assumes "CACHE_KEY_PATTERN_test k" "cache_dir w = Some es" "map_of es (k @ ''.json'') = None"
  shows "getChunks env k w = (None, advance w (Some es) [ExistsSync (entry_path env k)] [])"
  using assms existsSync_member[OF locate_entry[OF assms(1)] assms(2), of env]
  by (simp add: getChunks_def resolveCachePath_entry getChunks_try_def)

lemma getChunks_try_read:
  assumes "CACHE_KEY_PATTERN_test k" "cache_dir w = Some es" "map_of es (k @ ''.json'') = Some f"
  shows "getChunks_try env k (entry_path env k) w =
     (let w2 = advance w (Some es) [ExistsSync (entry_path env k), ReadFileSync (entry_path env k)] []
      in case JSON_parse (content f) of
           Inl e \<Rightarrow> (Inl e, w2)
         | Inr ParsedNull \<Rightarrow> (Inl TypeError, w2)
         | Inr (ParsedValue data_timestamp data_chunks) \<Rightarrow>
             if (case data_timestamp of None \<Rightarrow> False | Some t \<Rightarrow> clock w - t > CACHE_TTL) then
               (Inr None, advance w (Some (remove_name (k @ ''.json'') es))
                  [ExistsSync (entry_path env k), ReadFileSync (entry_path env k), UnlinkSync (entry_path env k)]
                  [LogDebug (''Cache expired for '' @ k @ '', deleted file'')])
             else
               (case data_chunks of
                  None \<Rightarrow> (Inl TypeError, w2)
                | Some v \<Rightarrow>
                    (Inr (Some v), advance w (Some es)
                       [ExistsSync (entry_path env k), ReadFileSync (entry_path env k)]
                       [LogDebug (''Cache hit for '' @ k @ '', returning '' @ length_text v @ '' chunks'')])))"
proof -
  note loc = locate_entry[OF assms(1), of env]
  define w1 where "w1 = advance w (Some es) [ExistsSync (entry_path env k)] []"
  define w2 where "w2 = advance w (Some es) [ExistsSync (entry_path env k), ReadFileSync (entry_path env k)] []"
  have ex: "existsSync env (entry_path env k) w = (True, w1)"
    using existsSync_member[OF loc assms(2)] assms(3) by (simp add: w1_def)
  have rd: "readFileSync env (entry_path env k) w1 = (Inr (content f), w2)"
    using readFileSync_member[OF loc, of w1 es] assms(3) by (simp add: w1_def w2_def)
  have now: "Date_now w2 = clock w" by (simp add: Date_now_def w2_def)
  have un: "unlinkSync env (entry_path env k) w2
      = (Inr (), advance w2 (Some (remove_name (k @ ''.json'') es)) [UnlinkSync (entry_path env k)] [])"
    using unlinkSync_member[OF loc, of w2 es] assms(3) by (simp add: w2_def)
  have un': "advance (Logger_debug m (advance w2 d [UnlinkSync (entry_path env k)] [])) d [] []
      = advance w d [ExistsSync (entry_path env k), ReadFileSync (entry_path env k), UnlinkSync (entry_path env k)]
          [LogDebug m]" for m d
    by (simp add: Logger_debug_advance) (simp add: w2_def)
  have hit': "Logger_debug m w2
      = advance w (Some es) [ExistsSync (entry_path env k), ReadFileSync (entry_path env k)] [LogDebug m]" for m
    by (simp add: Logger_debug_advance) (simp add: w2_def)
  have ex1: "Logger_debug m (advance w2 d [UnlinkSync (entry_path env k)] [])
      = advance w d [ExistsSync (entry_path env k), ReadFileSync (entry_path env k), UnlinkSync (entry_path env k)]
          [LogDebug m]" for m d
    by (simp add: Logger_debug_advance) (simp add: w2_def)
  have body: "getChunks_try env k (entry_path env k) w =
     (case JSON_parse (content f) of
        Inl e \<Rightarrow> (Inl e, w2)
      | Inr ParsedNull \<Rightarrow> (Inl TypeError, w2)
      | Inr (ParsedValue data_timestamp data_chunks) \<Rightarrow>
          if (case data_timestamp of None \<Rightarrow> False | Some t \<Rightarrow> clock w - t > CACHE_TTL) then
            (Inr None, Logger_debug (''Cache expired for '' @ k @ '', deleted file'')
               (advance w2 (Some (remove_name (k @ ''.json'') es)) [UnlinkSync (entry_path env k)] []))
          else
            (case data_chunks of
               None \<Rightarrow> (Inl TypeError, w2)
             | Some v \<Rightarrow>
                 (Inr (Some v),
                  Logger_debug (''Cache hit for '' @ k @ '', returning '' @ length_text v @ '' chunks'') w2)))"
    by (simp add: getChunks_try_def ex rd now un split: sum.split parsed.split option.split)
  show ?thesis
    unfolding body ex1 hit' Let_def w2_def[symmetric] ..
qed

lemma getChunks_thrown:
  assumes "CACHE_KEY_PATTERN_test k" "cache_dir w = Some es" "map_of es (k @ ''.json'') = Some f"
    and "getChunks_try env k (entry_path env k) w
       = (Inl e, advance w (Some es) [ExistsSync (entry_path env k), ReadFileSync (entry_path env k)] [])"
  shows "getChunks env k w =
     (None, advance w (Some (remove_name (k @ ''.json'') es))
        [ExistsSync (entry_path env k), ReadFileSync (entry_path env k), UnlinkSync (entry_path env k)]
        [LogDebug (''Cache read error for '' @ k @ '': '' @ show_error e)])"
proof -
  note loc = locate_entry[OF assms(1), of env]
  show ?thesis
    by (simp add: getChunks_def resolveCachePath_entry[OF assms(1)] assms(4) Logger_debug_advance
        unlinkSync_member[OF loc] assms(3))
qed

lemma getChunks_corrupt:
  assumes "CACHE_KEY_PATTERN_test k" "cache_dir w = Some es" "map_of es (k @ ''.json'') = Some f"
    "content f = Corrupt"
  shows "getChunks env k w =
     (None, advance w (Some (remove_name (k @ ''.json'') es))
        [ExistsSync (entry_path env k), ReadFileSync (entry_path env k), UnlinkSync (entry_path env k)]
        [LogDebug (''Cache read error for '' @ k @ '': '' @ show_error SyntaxError)])"
proof (rule getChunks_thrown[OF assms(1-3)])
  show "getChunks_try env k (entry_path env k) w
       = (Inl SyntaxError, advance w (Some es) [ExistsSync (entry_path env k), ReadFileSync (entry_path env k)] [])"
    by (simp add: getChunks_try_read[OF assms(1-3)] assms(4) JSON_parse_def)
qed

lemma getChunks_null:
  assumes "CACHE_KEY_PATTERN_test k" "cache_dir w = Some es" "map_of es (k @ ''.json'') = Some f"
    "content f = Json ParsedNull"
  shows "getChunks env k w =
     (None, advance w (Some (remove_name (k @ ''.json'') es))
        [ExistsSync (entry_path env k), ReadFileSync (entry_path env k), UnlinkSync (entry_path env k)]
        [LogDebug (''Cache read error for '' @ k @ '': '' @ show_error TypeError)])"
proof (rule getChunks_thrown[OF assms(1-3)])
  show "getChunks_try env k (entry_path env k) w
       = (Inl TypeError, advance w (Some es) [ExistsSync (entry_path env k), ReadFileSync (entry_path env k)] [])"
    by (simp add: getChunks_try_read[OF assms(1-3)] assms(4) JSON_parse_def)
qed

lemma getChunks_parsed_expired:
  assumes "CACHE_KEY_PATTERN_test k" "cache_dir w = Some es" "map_of es (k @ ''.json'') = Some f"
    "JSON_parse (content f) = Inr (ParsedValue (Some t) data_chunks)" "clock w - t > CACHE_TTL"
  shows "getChunks env k w =
     (None, advance w (Some (remove_name (k @ ''.json'') es))
        [ExistsSync (entry_path env k), ReadFileSync (entry_path env k), UnlinkSync (entry_path env k)]
        [LogDebug (''Cache expired for '' @ k @ '', deleted file'')])"
  using assms(5)
  by (simp add: getChunks_def resolveCachePath_entry[OF assms(1)] getChunks_try_read[OF assms(1-3)] assms(4))

lemma getChunks_no_chunks:
  assumes "CACHE_KEY_PATTERN_test k" "cache_dir w = Some es" "map_of es (k @ ''.json'') = Some f"
    "content f = Json (ParsedValue data_timestamp None)"
  shows "fst (getChunks env k w) = None
       \<and> cache_dir (snd (getChunks env k w)) = Some (remove_name (k @ ''.json'') es)"
proof (cases "case data_timestamp of None \<Rightarrow> False | Some t \<Rightarrow> clock w - t > CACHE_TTL")
  case True
  then obtain t where t: "data_timestamp = Some t" "clock w - t > CACHE_TTL"
    by (cases data_timestamp) auto
  have "JSON_parse (content f) = Inr (ParsedValue (Some t) None)"
    by (simp add: assms(4) t JSON_parse_def)
  from getChunks_parsed_expired[OF assms(1-3) this t(2), of env] show ?thesis by simp
next
  case False
  have "getChunks_try env k (entry_path env k) w
       = (Inl TypeError, advance w (Some es) [ExistsSync (entry_path env k), ReadFileSync (entry_path env k)] [])"
    using False by (simp add: getChunks_try_read[OF assms(1-3)] assms(4) JSON_parse_def)
  from getChunks_thrown[OF assms(1-3) this] show ?thesis by simp
qed

lemma getChunks_parsed_hit:
  assumes "CACHE_KEY_PATTERN_test k" "cache_dir w = Some es" "map_of es (k @ ''.json'') = Some f"
    "JSON_parse (content f) = Inr (ParsedValue data_timestamp (Some v))"
    "\<not> (case data_timestamp of None \<Rightarrow> False | Some t \<Rightarrow> clock w - t > CACHE_TTL)"
  shows "getChunks env k w =
     (Some v, advance w (Some es)
        [ExistsSync (entry_path env k), ReadFileSync (entry_path env k)]
        [LogDebug (''Cache hit for '' @ k @ '', returning '' @ length_text v @ '' chunks'')])"
  using assms(5)
  by (simp add: getChunks_def resolveCachePath_entry[OF assms(1)] getChunks_try_read[OF assms(1-3)] assms(4))

lemma getChunks_expired:
  assumes "CACHE_KEY_PATTERN_test k" "cache_dir w = Some es" "map_of es (k @ ''.json'') = Some f"
    "content f = Entry e" "clock w - timestamp e > CACHE_TTL"
  shows "getChunks env k w =
     (None, advance w (Some (remove_name (k @ ''.json'') es))
        [ExistsSync (entry_path env k), ReadFileSync (entry_path env k), UnlinkSync (entry_path env k)]
        [LogDebug (''Cache expired for '' @ k @ '', deleted file'')])"
proof (rule getChunks_parsed_expired[OF assms(1-3) _ assms(5)])
  show "JSON_parse (content f) = Inr (ParsedValue (Some (timestamp e)) (Some (ChunkArray (chunks e))))"
    by (simp add: assms(4) JSON_parse_def)
qed

lemma getChunks_hit:
  assumes "CACHE_KEY_PATTERN_test k" "cache_dir w = Some es" "map_of es (k @ ''.json'') = Some f"
    "content f = Entry e" "\<not> clock w - timestamp e > CACHE_TTL"
  shows "getChunks env k w =
     (Some (ChunkArray (chunks e)), advance w (Some es)
        [ExistsSync (entry_path env k), ReadFileSync (entry_path env k)]
        [LogDebug (''Cache hit for '' @ k @ '', returning '' @ show_nat (length (chunks e)) @ '' chunks'')])"
proof -
  have p: "JSON_parse (content f) = Inr (ParsedValue (Some (timestamp e)) (Some (ChunkArray (chunks e))))"
    by (simp add: assms(4) JSON_parse_def)
  have "\<not> (case Some (timestamp e) of None \<Rightarrow> False | Some t \<Rightarrow> clock w - t > CACHE_TTL)"
    using assms(5) by simp
  from getChunks_parsed_hit[OF assms(1-3) p this, of env] show ?thesis
    by (simp add: length_text_def)
qed

subsection \<open>Key generation and the directory after a write\<close>

lemma length_toString_hex: "length (toString_hex bs) = 2 * length bs"
  by (induction bs) (auto simp: toString_hex_def)

lemma hex_digit_lower: "lower_hex (hex_digit k)"
proof -
  have "k mod 16 < length ''0123456789abcdef''" by simp
  then have "''0123456789abcdef'' ! (k mod 16) \<in> set ''0123456789abcdef''"
    by (rule nth_mem)
  then show ?thesis unfolding lower_hex_def hex_digit_def .
qed

lemma toString_hex_lower: "list_all lower_hex (toString_hex bs)"
  by (induction bs) (auto simp: toString_hex_def hex_digit_lower)

lemma lower_hex_imp: "lower_hex c \<Longrightarrow> hex_digit_i c"
  by (auto simp: lower_hex_def hex_digit_i_def)

lemma draw_key_lower: "length (draw_key rnd pos) = 8 \<and> list_all lower_hex (draw_key rnd pos)"
  by (simp add: draw_key_def length_toString_hex toString_hex_lower)

lemma draw_key_pattern: "CACHE_KEY_PATTERN_test (draw_key rnd pos)"
  using draw_key_lower[of rnd pos] lower_hex_imp
  by (auto simp: CACHE_KEY_PATTERN_test_def list_all_iff)

lemma randomBytes_4:
  "randomBytes 4 w = (map (entropy w) [drawn w ..< drawn w + 4], w\<lparr>drawn := drawn w + 4\<rparr>)"
  by (simp add: randomBytes_def)

lemma retry_loop_settle:
  assumes "cache_dir w = Some es" "drawn w = pos + 4"
  shows "\<exists>T. retry_loop left env (draw_key (entropy w) pos)
                 (resolveCachePath env (draw_key (entropy w) pos)) w
           = (draw_key (entropy w) (settle left (draw_key (entropy w)) es pos),
              Some (entry_path env (draw_key (entropy w) (settle left (draw_key (entropy w)) es pos))),
              advance (w\<lparr>drawn := settle left (draw_key (entropy w)) es pos + 4\<rparr>) (Some es) T [])"
  using assms
proof (induction left arbitrary: w pos)
  case 0
  have "w\<lparr>drawn := pos + 4\<rparr> = w" using "0.prems"(2) by simp
  then have "advance (w\<lparr>drawn := pos + 4\<rparr>) (Some es) [] [] = w"
    using advance_id[of w] "0.prems"(1) by simp
  then have "retry_loop 0 env (draw_key (entropy w) pos) (resolveCachePath env (draw_key (entropy w) pos)) w
      = (draw_key (entropy w) (settle 0 (draw_key (entropy w)) es pos),
         Some (entry_path env (draw_key (entropy w) (settle 0 (draw_key (entropy w)) es pos))),
         advance (w\<lparr>drawn := settle 0 (draw_key (entropy w)) es pos + 4\<rparr>) (Some es) [] [])"
    by (simp add: resolveCachePath_entry[OF draw_key_pattern])
  then show ?case by blast
next
  case (Suc left)
  define k where "k = draw_key (entropy w) pos"
  have pat: "CACHE_KEY_PATTERN_test k" unfolding k_def by (rule draw_key_pattern)
  note loc = locate_entry[OF pat, of env]
  define w1 where "w1 = advance w (Some es) [ExistsSync (entry_path env k)] []"
  have ex: "existsSync env (entry_path env k) w = (map_of es (k @ ''.json'') \<noteq> None, w1)"
    using existsSync_member[OF loc Suc.prems(1)] by (simp add: w1_def)
  show ?case
  proof (cases "map_of es (k @ ''.json'') \<noteq> None")
    case False
    have "w\<lparr>drawn := pos + 4\<rparr> = w" using Suc.prems(2) by simp
    then have "retry_loop (Suc left) env k (resolveCachePath env k) w
      = (draw_key (entropy w) (settle (Suc left) (draw_key (entropy w)) es pos),
         Some (entry_path env (draw_key (entropy w) (settle (Suc left) (draw_key (entropy w)) es pos))),
         advance (w\<lparr>drawn := settle (Suc left) (draw_key (entropy w)) es pos + 4\<rparr>) (Some es)
           [ExistsSync (entry_path env k)] [])"
      using False by (simp add: resolveCachePath_entry[OF pat] ex k_def[symmetric]) (simp add: w1_def)
    then show ?thesis unfolding k_def by blast
  next
    case True
    define w2 where "w2 = w1\<lparr>drawn := (pos + 4) + 4\<rparr>"
    have d2: "cache_dir w2 = Some es" and n2: "drawn w2 = (pos + 4) + 4" and e2: "entropy w2 = entropy w"
      by (simp_all add: w2_def w1_def)
    have rb: "randomBytes 4 w1 = (map (entropy w) [pos + 4 ..< pos + 4 + 4], w2)"
      using Suc.prems(2) by (simp add: randomBytes_4 w1_def w2_def)
    from Suc.IH[OF d2 n2]
    obtain T where ih: "retry_loop left env (draw_key (entropy w) (pos + 4))
                 (resolveCachePath env (draw_key (entropy w) (pos + 4))) w2
           = (draw_key (entropy w) (settle left (draw_key (entropy w)) es (pos + 4)),
              Some (entry_path env (draw_key (entropy w) (settle left (draw_key (entropy w)) es (pos + 4)))),
              advance (w2\<lparr>drawn := settle left (draw_key (entropy w)) es (pos + 4) + 4\<rparr>) (Some es) T [])"
      unfolding e2 by blast
    have st: "settle (Suc left) (draw_key (entropy w)) es pos = settle left (draw_key (entropy w)) es (pos + 4)"
      using True by (simp add: k_def)
    have wd: "advance (w2\<lparr>drawn := settle left (draw_key (entropy w)) es (pos + 4) + 4\<rparr>) (Some es) T []
        = advance (w\<lparr>drawn := settle left (draw_key (entropy w)) es (pos + 4) + 4\<rparr>) (Some es)
            ([ExistsSync (entry_path env k)] @ T) []"
      by (simp add: w2_def w1_def advance_def)
    have "retry_loop (Suc left) env k (resolveCachePath env k) w
        = retry_loop left env (draw_key (entropy w) (pos + 4))
                 (resolveCachePath env (draw_key (entropy w) (pos + 4))) w2"
      using True by (simp add: resolveCachePath_entry[OF pat] ex rb draw_key_def Let_def)
    also note ih
    finally have "retry_loop (Suc left) env k (resolveCachePath env k) w
      = (draw_key (entropy w) (settle (Suc left) (draw_key (entropy w)) es pos),
         Some (entry_path env (draw_key (entropy w) (settle (Suc left) (draw_key (entropy w)) es pos))),
         advance (w\<lparr>drawn := settle (Suc left) (draw_key (entropy w)) es pos + 4\<rparr>) (Some es)
           ([ExistsSync (entry_path env k)] @ T) [])"
      unfolding st wd .
    then show ?thesis unfolding k_def by blast
  qed
qed

lemma map_of_put_file: "map_of (put_file n f es) n = Some f"
proof (cases "map_of es n")
  case None
  then show ?thesis by (simp add: put_file_def map_add_def)
next
  case (Some g)
  have "map_of es n \<noteq> None \<Longrightarrow> map_of (map (\<lambda>e. if fst e = n then (n, f) else e) es) n = Some f"
    by (induction es) auto
  then show ?thesis using Some by (simp add: put_file_def)
qed

lemma names_put_file:
  "map fst (put_file n f es) = (if map_of es n = None then map fst es @ [n] else map fst es)"
  by (auto simp: put_file_def comp_def intro!: map_cong)

lemma wf_dir_put_file: "wf_dir es \<Longrightarrow> normal_seg n \<Longrightarrow> wf_dir (put_file n f es)"
  unfolding wf_dir_def names_put_file by (auto simp: map_of_eq_None_iff)

lemma json_count_put_file:
  "length (json_entries (put_file n f es)) \<le> Suc (length (json_entries es))"
proof -
  have "length (filter is_json (map fst (put_file n f es))) \<le> Suc (length (filter is_json (map fst es)))"
    unfolding names_put_file by simp
  then show ?thesis by (simp add: json_entries_def filter_map comp_def)
qed

lemma json_count_swept: "length (json_entries (swept now es)) \<le> length (json_entries es)"
proof -
  have "json_entries (swept now es) = filter (\<lambda>e. \<not> now - mtimeMs (snd e) > CACHE_TTL) (json_entries es)"
    unfolding json_entries_def swept_def filter_filter by (intro filter_cong) auto
  then show ?thesis by simp
qed

lemma map_of_swept:
  "map_of es n = Some f \<Longrightarrow> \<not> now - mtimeMs f > CACHE_TTL \<Longrightarrow> map_of (swept now es) n = Some f"
  by (induction es) (auto simp: swept_def)

subsection \<open>A run of \<^verbatim>\<open>cacheChunks\<close>\<close>

lemma ensureCacheDir_ok:
  assumes "dir_available w"
  shows "\<exists>T. ensureCacheDir env w = (Inr (), advance w (Some (initial_entries w)) T [])"
proof (cases "cache_dir w")
  case None
  then show ?thesis
    using assms ensureCacheDir_absent[OF None, of env]
    by (auto simp: dir_available_def initial_entries_def)
next
  case (Some es)
  then show ?thesis
    using ensureCacheDir_present[OF Some, of env] by (auto simp: initial_entries_def)
qed

lemma ensureCacheDir_fails:
  assumes "\<not> dir_available w"
  shows "fst (ensureCacheDir env w) = Inl EIO"
  using assms ensureCacheDir_absent[of w env] by (auto simp: dir_available_def)

lemma wf_initial: "wf_world w \<Longrightarrow> wf_dir (initial_entries w)"
  by (auto simp: wf_world_def initial_entries_def wf_dir_def split: option.splits)

lemma wf_written:
  assumes "wf_world w"
  shows "wf_dir (written_entries env prompt chunks0 w)"
proof -
  have s: "wf_dir (swept (clock w) (initial_entries w))"
    unfolding swept_def by (rule wf_dir_filter[OF wf_initial[OF assms]])
  have n: "normal_seg (generated_key w @ ''.json'')"
    unfolding generated_key_def by (rule key_json_normal[OF draw_key_pattern])
  show ?thesis
    unfolding written_entries_def using s wf_dir_put_file[OF s n] by simp
qed

lemma cacheChunks_run:
  assumes wf: "wf_world w" and av: "dir_available w"
  shows "\<exists>T L. cacheChunks env prompt chunks0 w
            = (Inr (generated_key w),
               advance (w\<lparr>drawn := final_pos w + 4\<rparr>)
                 (Some (after_eviction (written_entries env prompt chunks0 w))) T L)
          \<and> (\<not> persisted env chunks0 w \<longrightarrow>
               (\<exists>e. LogError (''Failed to cache chunks: '' @ show_error e) \<in> set L))"
proof -
  define es0 where "es0 = initial_entries w"
  define es1 where "es1 = swept (clock w) es0"
  define k where "k = generated_key w"
  define p where "p = entry_path env k"
  define es2 where "es2 = written_entries env prompt chunks0 w"
  have pat: "CACHE_KEY_PATTERN_test k"
    unfolding k_def generated_key_def by (rule draw_key_pattern)
  note loc = locate_entry[OF pat, of env, folded p_def]
  obtain T1 where ens: "ensureCacheDir env w = (Inr (), advance w (Some es0) T1 [])"
    using ensureCacheDir_ok[OF av] unfolding es0_def by blast
  define w1 where "w1 = advance w (Some es0) T1 []"
  have wf0: "wf_dir es0" unfolding es0_def by (rule wf_initial[OF wf])
  have wf1: "wf_dir es1" unfolding es1_def swept_def by (rule wf_dir_filter[OF wf0])
  obtain T2 L2 where cl: "cleanExpiredFiles env w1 = advance w1 (Some es1) T2 L2"
    using cleanExpiredFiles_advance[of w1 es0 env] wf0 unfolding es1_def w1_def by auto
  define w2 where "w2 = advance w (Some es1) (T1 @ T2) L2"
  have cl2: "cleanExpiredFiles env w1 = w2" using cl by (simp add: w1_def w2_def)
  define w3 where "w3 = w2\<lparr>drawn := drawn w + 4\<rparr>"
  have rb: "randomBytes 4 w2 = (map (entropy w) [drawn w ..< drawn w + 4], w3)"
    by (simp add: randomBytes_4 w2_def w3_def)
  have k0: "toString_hex (map (entropy w) [drawn w ..< drawn w + 4]) = draw_key (entropy w3) (drawn w)"
    by (simp add: draw_key_def w3_def w2_def)
  have d3: "cache_dir w3 = Some es1" and n3: "drawn w3 = drawn w + 4" and e3: "entropy w3 = entropy w"
    by (simp_all add: w3_def w2_def)
  have fp: "settle 5 (draw_key (entropy w)) es1 (drawn w) = final_pos w"
    by (simp add: final_pos_def es1_def es0_def)
  obtain T4 where rl: "retry_loop 5 env (draw_key (entropy w3) (drawn w))
                 (resolveCachePath env (draw_key (entropy w3) (drawn w))) w3
           = (k, Some p, advance (w3\<lparr>drawn := final_pos w + 4\<rparr>) (Some es1) T4 [])"
    using retry_loop_settle[OF d3 n3, of 5 env] unfolding e3 fp k_def p_def generated_key_def by blast
  define w4 where "w4 = advance (w\<lparr>drawn := final_pos w + 4\<rparr>) (Some es1) (T1 @ T2 @ T4) L2"
  have w4: "advance (w3\<lparr>drawn := final_pos w + 4\<rparr>) (Some es1) T4 [] = w4"
    by (simp add: w4_def w3_def w2_def advance_def)
  have d4: "cache_dir w4 = Some es1" and c4: "clock w4 = clock w" and f4: "write_fault w4 = write_fault w"
    by (simp_all add: w4_def)
  have now: "Date_now w4 = clock w" by (simp add: Date_now_def c4)
  define cacheData where "cacheData = \<lparr>chunks = chunks0, timestamp = clock w, promptHash = sha256_hex env prompt\<rparr>"
  have nf: "\<lparr>content = Entry cacheData, mtimeMs = clock w\<rparr> = new_file env prompt chunks0 w"
    by (simp add: new_file_def cacheData_def)
  have head: "cacheChunks env prompt chunks0 w =
      (Inr k, enforceFileLimits env
         (case JSON_stringify env cacheData of
            Inl e \<Rightarrow> Logger_error (''Failed to cache chunks: '' @ show_error e) w4
          | Inr data \<Rightarrow>
              (case writeFileSync env p data w4 of
                 (Inl e, w') \<Rightarrow> Logger_error (''Failed to cache chunks: '' @ show_error e) w'
               | (Inr _, w') \<Rightarrow>
                   Logger_debug (''Cached '' @ show_nat (length chunks0)
                                 @ '' chunks to file: '' @ k @ ''.json'') w')))"
    unfolding cacheChunks_def ens w1_def[symmetric]
    by (simp add: cl2 rb k0 rl w4 now Let_def cacheData_def)
  obtain L5 T5 where w5:
    "(case JSON_stringify env cacheData of
            Inl e \<Rightarrow> Logger_error (''Failed to cache chunks: '' @ show_error e) w4
          | Inr data \<Rightarrow>
              (case writeFileSync env p data w4 of
                 (Inl e, w') \<Rightarrow> Logger_error (''Failed to cache chunks: '' @ show_error e) w'
               | (Inr _, w') \<Rightarrow>
                   Logger_debug (''Cached '' @ show_nat (length chunks0)
                                 @ '' chunks to file: '' @ k @ ''.json'') w'))
      = advance w4 (Some es2) T5 L5"
    and l5: "\<not> persisted env chunks0 w \<longrightarrow> (\<exists>e. LogError (''Failed to cache chunks: '' @ show_error e) \<in> set L5)"
  proof (cases "list_all (serializable env) chunks0")
    case False
    then have np: "\<not> persisted env chunks0 w" by (simp add: persisted_def)
    then have e2: "es2 = es1" by (simp add: es2_def written_entries_def es1_def es0_def)
    have js: "JSON_stringify env cacheData = Inl TypeError"
      using False by (simp add: JSON_stringify_def cacheData_def)
    show ?thesis
      by (rule that[of "[]" "[LogError (''Failed to cache chunks: '' @ show_error TypeError)]"])
         (auto simp: js Logger_error_advance d4 e2)
  next
    case True
    have js: "JSON_stringify env cacheData = Inr (Entry cacheData)"
      using True by (simp add: JSON_stringify_def cacheData_def)
    show ?thesis
    proof (cases "write_fault w")
      case wfault: True
      then have np: "\<not> persisted env chunks0 w" by (simp add: persisted_def)
      then have e2: "es2 = es1" by (simp add: es2_def written_entries_def es1_def es0_def)
      have wr: "writeFileSync env p (Entry cacheData) w4 = (Inl EIO, advance w4 (Some es1) [WriteFileSync p] [])"
        using writeFileSync_member[OF loc d4] wfault f4 by simp
      show ?thesis
        by (rule that[of "[WriteFileSync p]" "[LogError (''Failed to cache chunks: '' @ show_error EIO)]"])
           (auto simp: js wr Logger_error_advance e2)
    next
      case nofault: False
      then have ps: "persisted env chunks0 w" using True by (simp add: persisted_def)
      then have e2: "es2 = put_file (k @ ''.json'') (new_file env prompt chunks0 w) es1"
        by (simp add: es2_def written_entries_def es1_def es0_def k_def)
      have wr: "writeFileSync env p (Entry cacheData) w4
          = (Inr (), advance w4 (Some es2) [WriteFileSync p] [])"
        using writeFileSync_member[OF loc d4] nofault f4 by (simp add: c4 nf e2)
      show ?thesis
        by (rule that[of "[WriteFileSync p]"
              "[LogDebug (''Cached '' @ show_nat (length chunks0) @ '' chunks to file: '' @ k @ ''.json'')]"])
           (auto simp: js wr Logger_debug_advance ps)
    qed
  qed
  have wf2: "wf_dir es2" unfolding es2_def by (rule wf_written[OF wf])
  obtain T6 L6 where enf: "enforceFileLimits env (advance w4 (Some es2) T5 L5)
      = advance (advance w4 (Some es2) T5 L5) (Some (after_eviction es2)) T6 L6"
    using enforceFileLimits_advance[of "advance w4 (Some es2) T5 L5" es2 env] wf2 by auto
  have "cacheChunks env prompt chunks0 w
      = (Inr (generated_key w),
         advance (w\<lparr>drawn := final_pos w + 4\<rparr>) (Some (after_eviction es2))
           (T1 @ T2 @ T4 @ T5 @ T6) (L2 @ L5 @ L6))"
    unfolding head w5 enf by (simp add: w4_def k_def)
  moreover have "\<not> persisted env chunks0 w \<longrightarrow>
      (\<exists>e. LogError (''Failed to cache chunks: '' @ show_error e) \<in> set (L2 @ L5 @ L6))"
    using l5 by auto
  ultimately show ?thesis unfolding es2_def by blast
qed

subsection \<open>Collisions, failure and eviction in a run\<close>

lemma occupied_swept:
  assumes "occupied w k"
  shows "map_of (swept (clock w) (initial_entries w)) (k @ ''.json'') \<noteq> None"
proof -
  from assms obtain f where f: "map_of (initial_entries w) (k @ ''.json'') = Some f"
    and fr: "\<not> clock w - mtimeMs f > CACHE_TTL"
    by (auto simp: occupied_def split: option.splits)
  show ?thesis using map_of_swept[OF f fr] by simp
qed

lemma occupied_dir: "occupied w k \<Longrightarrow> dir_available w"
  by (auto simp: occupied_def dir_available_def initial_entries_def split: option.splits)

lemma final_pos_collisions:
  assumes "\<forall>i<5. occupied w (drawn_key w i)"
  shows "final_pos w = drawn w + 20"
proof -
  have "map_of (swept (clock w) (initial_entries w)) (draw_key (entropy w) (drawn w + 4 * i) @ ''.json'') \<noteq> None"
    if "i < 5" for i
    using assms that occupied_swept[of w "drawn_key w i"] by (simp add: drawn_key_def)
  from this[of 0] this[of 1] this[of 2] this[of 3] this[of 4]
  show ?thesis
    by (simp add: final_pos_def eval_nat_numeral add.assoc)
qed

lemma cacheChunks_raises:
  assumes "\<not> dir_available w"
  shows "\<exists>e w'. cacheChunks env prompt chunks0 w = (Inl e, w')"
proof -
  obtain r w1 where e: "ensureCacheDir env w = (r, w1)" by (cases "ensureCacheDir env w")
  then have "r = Inl EIO" using ensureCacheDir_fails[OF assms, of env] by simp
  then show ?thesis using e by (simp add: cacheChunks_def)
qed

lemma written_no_eviction:
  assumes "json_count w < MAX_CACHE_FILES"
  shows "after_eviction (written_entries env prompt chunks0 w) = written_entries env prompt chunks0 w"
proof -
  have "length (json_entries (swept (clock w) (initial_entries w))) \<le> json_count w"
    unfolding json_count_def by (rule json_count_swept)
  moreover have "length (json_entries (written_entries env prompt chunks0 w))
      \<le> Suc (length (json_entries (swept (clock w) (initial_entries w))))"
    using json_count_put_file[of "generated_key w @ ''.json''" "new_file env prompt chunks0 w"
        "swept (clock w) (initial_entries w)"]
    by (simp add: written_entries_def)
  ultimately have "length (json_entries (written_entries env prompt chunks0 w)) \<le> MAX_CACHE_FILES"
    using assms by simp
  then have "evicted (written_entries env prompt chunks0 w) = []"
    by (simp add: evicted_def)
  then show ?thesis by (simp add: after_eviction_def)
qed

lemma map_of_after_eviction:
  assumes "distinct (map fst es)" and "map_of es n = Some f" and "(n, f) \<notin> set (evicted es)"
  shows "map_of (after_eviction es) n = Some f"
proof -
  have "(n, f) \<in> set es" using assms(2) by (rule map_of_SomeD)
  then have "(n, f) \<in> set (after_eviction es)" using assms(3) by (simp add: after_eviction_def)
  moreover have "distinct (map fst (after_eviction es))"
    unfolding after_eviction_def using assms(1) by (rule distinct_map_filter)
  ultimately show ?thesis by (rule map_of_is_SomeI[rotated])
qed

lemma written_older:
  assumes "list_all (\<lambda>e. mtimeMs (snd e) < clock w) (initial_entries w)"
    and "e \<in> set (written_entries env prompt chunks0 w)"
  shows "e = (generated_key w @ ''.json'', new_file env prompt chunks0 w) \<or> mtimeMs (snd e) < clock w"
proof -
  have s: "\<And>x. x \<in> set (swept (clock w) (initial_entries w)) \<Longrightarrow> mtimeMs (snd x) < clock w"
    using assms(1) by (auto simp: swept_def list_all_iff)
  have "set (written_entries env prompt chunks0 w)
      \<subseteq> insert (generated_key w @ ''.json'', new_file env prompt chunks0 w)
          (set (swept (clock w) (initial_entries w)))"
    by (auto simp: written_entries_def put_file_def)
  then have "e = (generated_key w @ ''.json'', new_file env prompt chunks0 w)
      \<or> e \<in> set (swept (clock w) (initial_entries w))"
    using assms(2) by blast
  then show ?thesis using s by blast
qed

lemma new_file_survives:
  assumes wf: "wf_world w" and ps: "persisted env chunks0 w"
    and old: "list_all (\<lambda>e. mtimeMs (snd e) < clock w) (initial_entries w)"
  shows "(generated_key w @ ''.json'', new_file env prompt chunks0 w)
           \<notin> set (evicted (written_entries env prompt chunks0 w))"
proof
  define W where "W = written_entries env prompt chunks0 w"
  define x where "x = (generated_key w @ ''.json'', new_file env prompt chunks0 w)"
  assume "(generated_key w @ ''.json'', new_file env prompt chunks0 w)
           \<in> set (evicted (written_entries env prompt chunks0 w))"
  then have xin: "x \<in> set (evicted W)" by (simp add: W_def x_def)
  have dist: "distinct (map fst W)"
    using wf_written[OF wf, of env prompt chunks0] by (simp add: wf_dir_def W_def)
  have dj: "distinct (json_entries W)"
    using distinct_entries[OF dist] by (simp add: json_entries_def)
  have de: "distinct (evicted W)"
    unfolding evicted_def using dj by (simp add: distinct_take)
  have "length (evicted W) > 0" using xin by (cases "evicted W") auto
  then have big: "length (json_entries W) > MAX_CACHE_FILES"
    by (simp add: length_evicted)
  then have "length (evicted W) < length (json_entries W)"
    by (simp add: length_evicted MAX_CACHE_FILES_def)
  then have "card (set (evicted W)) < card (set (json_entries W))"
    using dj de by (simp add: distinct_card)
  then have "\<not> set (json_entries W) \<subseteq> set (evicted W)"
    by (meson List.finite_set card_mono not_less)
  then obtain b where b: "b \<in> set (json_entries W)" "b \<notin> set (evicted W)" by blast
  have "b \<in> set W" using b(1) json_entries_subset by blast
  moreover have "b \<noteq> x" using b(2) xin by auto
  ultimately have bo: "mtimeMs (snd b) < clock w"
    using written_older[OF old, of b env prompt chunks0] by (auto simp: W_def x_def)
  have "mtimeMs (snd x) \<le> mtimeMs (snd b)" by (rule evicted_oldest[OF xin b])
  moreover have "mtimeMs (snd x) = clock w" by (simp add: x_def new_file_def)
  ultimately show False using bo by simp
qed

lemma key_despite_failed_write:
  assumes "wf_world w" and "dir_available w"
    and "write_fault w \<or> \<not> list_all (serializable env) chunks0"
  shows "\<exists>key w'. cacheChunks env prompt chunks0 w = (Inr key, w')
           \<and> lowercase_key key
           \<and> key = draw_key (entropy w) (drawn w' - 4)
           \<and> (\<exists>e. LogError (''Failed to cache chunks: '' @ show_error e) \<in> set (logged w'))
           \<and> cache_dir w' = Some (after_eviction (swept (clock w) (initial_entries w)))"
proof -
  have np: "\<not> persisted env chunks0 w" using assms(3) by (auto simp: persisted_def)
  obtain T L where run: "cacheChunks env prompt chunks0 w
      = (Inr (generated_key w),
         advance (w\<lparr>drawn := final_pos w + 4\<rparr>)
           (Some (after_eviction (written_entries env prompt chunks0 w))) T L)"
    and lg: "\<exists>e. LogError (''Failed to cache chunks: '' @ show_error e) \<in> set L"
    using cacheChunks_run[OF assms(1,2), of env prompt chunks0] np by blast
  have lk: "lowercase_key (generated_key w)"
    using draw_key_lower[of "entropy w" "final_pos w"] by (simp add: lowercase_key_def generated_key_def)
  have we: "written_entries env prompt chunks0 w = swept (clock w) (initial_entries w)"
    using np by (simp add: written_entries_def)
  show ?thesis
    unfolding run using lk lg we by (auto simp: generated_key_def)
qed

lemma cacheChunks_no_directory:
  assumes "cache_dir w = None" and "mkdir_fault w"
  shows "cacheChunks env prompt chunks0 w
       = (Inl EIO, advance w None [ExistsSync (CACHE_DIR env), MkdirSync (CACHE_DIR env)] [])"
  using assms by (simp add: cacheChunks_def ensureCacheDir_absent)

subsection \<open>Auxiliary facts for the examples\<close>

lemma cacheChunks_key:
  assumes "wf_world w" and "dir_available w"
  shows "fst (cacheChunks env prompt chunks0 w) = Inr (generated_key w)"
  using cacheChunks_run[OF assms, of env prompt chunks0] by auto

lemma all_less_6: "(\<forall>i<6. P (i::nat)) = (P 0 \<and> P 1 \<and> P 2 \<and> P 3 \<and> P 4 \<and> P 5)"
proof -
  have "\<And>i::nat. i < 6 \<longleftrightarrow> i = 0 \<or> i = 1 \<or> i = 2 \<or> i = 3 \<or> i = 4 \<or> i = 5" by auto
  then show ?thesis by auto
qed

section \<open>The properties\<close>

subsection \<open>C1: the key after six collisions\<close>

text \<open>
  C1, as amended. If the key drawn first and the five keys drawn by the retry loop all name
  files of the cache directory (files that exist and that the sweep at the start of the call
  leaves in place), then \<^verbatim>\<open>cacheChunks\<close> returns the sixth key drawn, and it does not raise.
  The loop ends after its fifth round with a path that is not null, so the branch that falls
  back to the digest of the prompt is not entered: that branch is taken only when
  \<^verbatim>\<open>resolveCachePath\<close> rejects the key.
\<close>

theorem C1_sixth_key:
  assumes "wf_world w" and "\<forall>i<6. occupied w (drawn_key w i)"
  shows "fst (cacheChunks env prompt chunks0 w) = Inr (drawn_key w 5)"
proof -
  have av: "dir_available w" using assms(2) occupied_dir[of w "drawn_key w 0"] by simp
  have "\<forall>i<5. occupied w (drawn_key w i)" using assms(2) by simp
  then have "generated_key w = drawn_key w 5"
    using final_pos_collisions[of w] by (simp add: generated_key_def drawn_key_def)
  then show ?thesis
    using cacheChunks_run[OF assms(1) av, of env prompt chunks0] by auto
qed

text \<open>
  C1 as stated fails. With the six keys \<^verbatim>\<open>00010203\<close>, ..., \<^verbatim>\<open>14151617\<close> taken and the random
  bytes 0, 1, 2, ..., the call \<^verbatim>\<open>cacheChunks('fix bug', [1, 2])\<close> returns \<^verbatim>\<open>14151617\<close>, the
  sixth key drawn, and not \<^verbatim>\<open>52f2d711\<close>, the first eight digits of the digest of the prompt.
\<close>

theorem C1_counterexample:
  "occupied six_taken (drawn_key six_taken 0) \<and> occupied six_taken (drawn_key six_taken 1)
   \<and> occupied six_taken (drawn_key six_taken 2) \<and> occupied six_taken (drawn_key six_taken 3)
   \<and> occupied six_taken (drawn_key six_taken 4) \<and> occupied six_taken (drawn_key six_taken 5)
   \<and> fst (cacheChunks env0 ''fix bug'' [1, 2] six_taken) = Inr ''14151617''
   \<and> take 8 (sha256_hex env0 ''fix bug'') = ''52f2d711''
   \<and> fst (cacheChunks env0 ''fix bug'' [1, 2] six_taken) \<noteq> Inr (take 8 (sha256_hex env0 ''fix bug''))"
proof -
  have occ: "occupied six_taken (drawn_key six_taken 0) \<and> occupied six_taken (drawn_key six_taken 1)
   \<and> occupied six_taken (drawn_key six_taken 2) \<and> occupied six_taken (drawn_key six_taken 3)
   \<and> occupied six_taken (drawn_key six_taken 4) \<and> occupied six_taken (drawn_key six_taken 5)"
    by code_simp
  have wf: "wf_world six_taken" by code_simp
  have av: "dir_available six_taken" by code_simp
  have gk: "generated_key six_taken = ''14151617''" by code_simp
  have dg: "take 8 (sha256_hex env0 ''fix bug'') = ''52f2d711''" by code_simp
  have "fst (cacheChunks env0 ''fix bug'' [1, 2] six_taken) = Inr ''14151617''"
    using cacheChunks_key[OF wf av, of env0 "''fix bug''" "[1, 2]"] gk by simp
  then show ?thesis using occ dg by simp
qed

text \<open>
  C1, as amended, at that input.
\<close>

theorem C1_witness:
  "wf_world six_taken
   \<and> list_all (occupied six_taken)
       [''00010203'', ''04050607'', ''08090a0b'', ''0c0d0e0f'', ''10111213'', ''14151617'']
   \<and> fst (cacheChunks env0 ''fix bug'' [1, 2] six_taken) = Inr ''14151617''"
proof -
  have wf: "wf_world six_taken" by code_simp
  have keys: "map (drawn_key six_taken) [0, 1, 2, 3, 4, 5]
      = [''00010203'', ''04050607'', ''08090a0b'', ''0c0d0e0f'', ''10111213'', ''14151617'']"
    by code_simp
  have occ: "list_all (occupied six_taken)
       [''00010203'', ''04050607'', ''08090a0b'', ''0c0d0e0f'', ''10111213'', ''14151617'']"
    by code_simp
  have all: "\<forall>i<6. occupied six_taken (drawn_key six_taken i)"
    unfolding all_less_6 using occ keys by simp
  show ?thesis
    using C1_sixth_key[OF wf all, of env0 "''fix bug''" "[1, 2]"] wf occ keys by simp
qed

subsection \<open>C2: round trip\<close>

text \<open>
  C2. In a well-formed state whose cache directory exists or can be created, when the write
  does not fail and the chunks can be serialised (no persistence failure), and when the new
  entry is not evicted, because fewer than \<^verbatim>\<open>MAX_CACHE_FILES\<close> entries are there (nothing is
  evicted at all) or because every file there is older than the clock (eviction takes older
  files), \<^verbatim>\<open>cacheChunks(prompt, chunks)\<close> returns a key, and \<^verbatim>\<open>getChunks\<close> on that key,
  at any time \<open>t\<close> not more than the time-to-live after the write, returns exactly
  \<open>chunks\<close>, in the same order.
\<close>

theorem C2_roundtrip:
  assumes "wf_world w" and "dir_available w"
    and "\<not> write_fault w" and "list_all (serializable env) chunks0"
    and "json_count w < MAX_CACHE_FILES
         \<or> list_all (\<lambda>e. mtimeMs (snd e) < clock w) (initial_entries w)"
    and "t - clock w \<le> CACHE_TTL"
  shows "case cacheChunks env prompt chunks0 w of
           (Inl e, w') \<Rightarrow> False
         | (Inr key, w') \<Rightarrow> fst (getChunks env key (w'\<lparr>clock := t\<rparr>)) = Some (ChunkArray chunks0)"
proof -
  have ps: "persisted env chunks0 w" using assms(3,4) by (simp add: persisted_def)
  obtain T L where run: "cacheChunks env prompt chunks0 w
      = (Inr (generated_key w),
         advance (w\<lparr>drawn := final_pos w + 4\<rparr>)
           (Some (after_eviction (written_entries env prompt chunks0 w))) T L)"
    using cacheChunks_run[OF assms(1,2), of env prompt chunks0] by blast
  define w2 where "w2 = (advance (w\<lparr>drawn := final_pos w + 4\<rparr>)
                           (Some (after_eviction (written_entries env prompt chunks0 w))) T L)\<lparr>clock := t\<rparr>"
  have d2: "cache_dir w2 = Some (after_eviction (written_entries env prompt chunks0 w))"
    and c2: "clock w2 = t"
    by (simp_all add: w2_def)
  have pat: "CACHE_KEY_PATTERN_test (generated_key w)"
    unfolding generated_key_def by (rule draw_key_pattern)
  have mo: "map_of (written_entries env prompt chunks0 w) (generated_key w @ ''.json'')
      = Some (new_file env prompt chunks0 w)"
    using ps by (simp add: written_entries_def map_of_put_file)
  have kept: "(generated_key w @ ''.json'', new_file env prompt chunks0 w)
      \<notin> set (evicted (written_entries env prompt chunks0 w))"
    using assms(5)
  proof
    assume "json_count w < MAX_CACHE_FILES"
    then have "after_eviction (written_entries env prompt chunks0 w) = written_entries env prompt chunks0 w"
      by (rule written_no_eviction)
    then have "\<forall>e\<in>set (written_entries env prompt chunks0 w).
                 e \<notin> set (evicted (written_entries env prompt chunks0 w))"
      unfolding after_eviction_def by (simp add: filter_id_conv)
    then show ?thesis using map_of_SomeD[OF mo] by blast
  next
    assume "list_all (\<lambda>e. mtimeMs (snd e) < clock w) (initial_entries w)"
    then show ?thesis by (rule new_file_survives[OF assms(1) ps])
  qed
  have dist: "distinct (map fst (written_entries env prompt chunks0 w))"
    using wf_written[OF assms(1), of env prompt chunks0] by (simp add: wf_dir_def)
  have mo': "map_of (after_eviction (written_entries env prompt chunks0 w)) (generated_key w @ ''.json'')
      = Some (new_file env prompt chunks0 w)"
    by (rule map_of_after_eviction[OF dist mo kept])
  have ct: "content (new_file env prompt chunks0 w)
      = Entry \<lparr>chunks = chunks0, timestamp = clock w, promptHash = sha256_hex env prompt\<rparr>"
    by (simp add: new_file_def)
  have fresh: "\<not> clock w2 - timestamp \<lparr>chunks = chunks0, timestamp = clock w, promptHash = sha256_hex env prompt\<rparr>
      > CACHE_TTL"
    using assms(6) by (simp add: c2)
  have "fst (getChunks env (generated_key w) w2) = Some (ChunkArray chunks0)"
    using getChunks_hit[OF pat d2 mo' ct fresh, of env] by simp
  then show ?thesis unfolding run w2_def by simp
qed

text \<open>
  C2 on an empty disk: the key is \<^verbatim>\<open>00010203\<close>, and the chunks \<open>[1, 2]\<close> come back ten
  minutes later.
\<close>

theorem C2_witness:
  "wf_world (disk_with None) \<and> dir_available (disk_with None) \<and> \<not> write_fault (disk_with None)
   \<and> list_all (serializable env0) [1, 2] \<and> json_count (disk_with None) < MAX_CACHE_FILES
   \<and> 1700000600000 - clock (disk_with None) \<le> CACHE_TTL
   \<and> fst (cacheChunks env0 ''fix bug'' [1, 2] (disk_with None)) = Inr ''00010203''
   \<and> fst (getChunks env0 ''00010203''
             ((snd (cacheChunks env0 ''fix bug'' [1, 2] (disk_with None)))\<lparr>clock := 1700000600000\<rparr>))
       = Some (ChunkArray [1, 2])"
proof -
  have h1: "wf_world (disk_with None)" by code_simp
  have h2: "dir_available (disk_with None)" by code_simp
  have h3: "\<not> write_fault (disk_with None)" by code_simp
  have h4: "list_all (serializable env0) [1, 2]" by code_simp
  have h5: "json_count (disk_with None) < MAX_CACHE_FILES" by code_simp
  then have h5': "json_count (disk_with None) < MAX_CACHE_FILES
         \<or> list_all (\<lambda>e. mtimeMs (snd e) < clock (disk_with None)) (initial_entries (disk_with None))"
    by simp
  have h6: "1700000600000 - clock (disk_with None) \<le> CACHE_TTL" by code_simp
  have gk: "generated_key (disk_with None) = ''00010203''" by code_simp
  have k: "fst (cacheChunks env0 ''fix bug'' [1, 2] (disk_with None)) = Inr ''00010203''"
    using cacheChunks_key[OF h1 h2, of env0 "''fix bug''" "[1, 2]"] gk by simp
  obtain r w' where c: "cacheChunks env0 ''fix bug'' [1, 2] (disk_with None) = (r, w')"
    by (cases "cacheChunks env0 ''fix bug'' [1, 2] (disk_with None)")
  then have r: "r = Inr ''00010203''" using k by simp
  show ?thesis
    using C2_roundtrip[OF h1 h2 h3 h4 h5' h6, of "''fix bug''"] h1 h2 h3 h4 h5 h6 k
    unfolding c r by simp
qed

subsection \<open>C3: keys that do not match the pattern\<close>

text \<open>
  C3, as amended. For every key that does not match the pattern \<^verbatim>\<open>/^[a-f0-9]{8}$/i\<close> of the
  code, which is not case-sensitive, \<^verbatim>\<open>getChunks\<close> returns absent, makes no file-system call
  and leaves the directory as it is.
\<close>

theorem C3_invalid_key_untouched:
  assumes "\<not> CACHE_KEY_PATTERN_test k"
  shows "fst (getChunks env k w) = None
       \<and> syscalls (snd (getChunks env k w)) = syscalls w
       \<and> cache_dir (snd (getChunks env k w)) = cache_dir w"
  using assms by (simp add: getChunks_invalid Logger_debug_def)

text \<open>
  C3 as stated fails. The key \<^verbatim>\<open>ABCDEF12\<close> does not match the lower-case pattern, yet
  \<^verbatim>\<open>getChunks\<close> calls \<^verbatim>\<open>existsSync\<close> on its path; and when a file of that name is there,
  its chunks are returned.
\<close>

theorem C3_counterexample:
  "\<not> lowercase_key ''ABCDEF12''
   \<and> syscalls (disk_with (Some [])) = []
   \<and> syscalls (snd (getChunks env0 ''ABCDEF12'' (disk_with (Some []))))
       = [ExistsSync ''/tmp/gemini-mcp-chunks/ABCDEF12.json'']
   \<and> fst (getChunks env0 ''ABCDEF12'' (disk_with (Some [(''ABCDEF12.json'', fresh_file [7])]))) = Some (ChunkArray [7])"
  by code_simp

text \<open>
  C3, as amended, at the key \<^verbatim>\<open>../../x\<close>.
\<close>

theorem C3_witness:
  "\<not> CACHE_KEY_PATTERN_test ''../../x''
   \<and> fst (getChunks env0 ''../../x'' (disk_with (Some [(''ABCDEF12.json'', fresh_file [7])]))) = None
   \<and> syscalls (snd (getChunks env0 ''../../x'' (disk_with (Some [(''ABCDEF12.json'', fresh_file [7])]))))
       = syscalls (disk_with (Some [(''ABCDEF12.json'', fresh_file [7])]))"
proof -
  have h: "\<not> CACHE_KEY_PATTERN_test ''../../x''" by code_simp
  show ?thesis
    using C3_invalid_key_untouched[OF h, of env0 "disk_with (Some [(''ABCDEF12.json'', fresh_file [7])])"] h
    by simp
qed

subsection \<open>C4: resolved paths stay inside the cache directory\<close>

text \<open>
  C4. A path that \<^verbatim>\<open>resolveCachePath\<close> returns is, once resolved again, prefixed by the
  resolved cache directory followed by the separator. A key whose candidate path is not so
  prefixed is rejected. A rejection comes before any file-system call: \<^verbatim>\<open>resolveCachePath\<close>
  does not take the state, and \<^verbatim>\<open>getChunks\<close> on a rejected key makes no call.
\<close>

theorem C4_resolved_inside:
  "(resolveCachePath env k = Some p \<longrightarrow>
      prefix (path_resolve (cwd env) [CACHE_DIR env] @ path_sep) (path_resolve (cwd env) [p]))
   \<and> (\<not> prefix (path_resolve (cwd env) [CACHE_DIR env] @ path_sep)
               (path_resolve (cwd env) [CACHE_DIR env, k @ ''.json'']) \<longrightarrow>
      resolveCachePath env k = None)
   \<and> (resolveCachePath env k = None \<longrightarrow> syscalls (snd (getChunks env k w)) = syscalls w)"
proof (intro conjI impI)
  assume "resolveCachePath env k = Some p"
  then have p: "p = path_resolve (cwd env) [CACHE_DIR env, k @ ''.json'']"
    and pre: "prefix (path_resolve (cwd env) [CACHE_DIR env] @ path_sep) p"
    by (auto simp: resolveCachePath_def Let_def split: if_splits)
  have "path_resolve (cwd env) [p] = p" unfolding p by (rule path_resolve_idem)
  then show "prefix (path_resolve (cwd env) [CACHE_DIR env] @ path_sep) (path_resolve (cwd env) [p])"
    using pre by simp
next
  assume "\<not> prefix (path_resolve (cwd env) [CACHE_DIR env] @ path_sep)
               (path_resolve (cwd env) [CACHE_DIR env, k @ ''.json''])"
  then show "resolveCachePath env k = None" by (simp add: resolveCachePath_def Let_def)
next
  assume "resolveCachePath env k = None"
  then show "syscalls (snd (getChunks env k w)) = syscalls w"
    by (simp add: getChunks_def Logger_debug_def)
qed

text \<open>
  C4 at the key \<^verbatim>\<open>0000abcd\<close>, which resolves, and at \<^verbatim>\<open>../../x\<close>, whose candidate path
  \<^verbatim>\<open>/x.json\<close> leaves the directory.
\<close>

theorem C4_witness:
  "resolveCachePath env0 ''0000abcd'' = Some ''/tmp/gemini-mcp-chunks/0000abcd.json''
   \<and> prefix (path_resolve (cwd env0) [CACHE_DIR env0] @ path_sep)
        (path_resolve (cwd env0) [''/tmp/gemini-mcp-chunks/0000abcd.json''])
   \<and> \<not> prefix (path_resolve (cwd env0) [CACHE_DIR env0] @ path_sep)
          (path_resolve (cwd env0) [CACHE_DIR env0, ''../../x'' @ ''.json''])
   \<and> resolveCachePath env0 ''../../x'' = None
   \<and> syscalls (snd (getChunks env0 ''../../x'' (disk_with (Some [])))) = syscalls (disk_with (Some []))"
proof -
  have a: "resolveCachePath env0 ''0000abcd'' = Some ''/tmp/gemini-mcp-chunks/0000abcd.json''"
    by code_simp
  have b: "\<not> prefix (path_resolve (cwd env0) [CACHE_DIR env0] @ path_sep)
          (path_resolve (cwd env0) [CACHE_DIR env0, ''../../x'' @ ''.json''])"
    by code_simp
  show ?thesis
    using C4_resolved_inside[of env0 "''0000abcd''" "''/tmp/gemini-mcp-chunks/0000abcd.json''" "disk_with (Some [])"]
      C4_resolved_inside[of env0 "''../../x''" "[]" "disk_with (Some [])"] a b
    by simp
qed

subsection \<open>C5: expiry on read\<close>

text \<open>
  C5. When the file of a key holds an entry whose own timestamp is more than \<^verbatim>\<open>CACHE_TTL\<close>
  (ten minutes) before the clock, \<^verbatim>\<open>getChunks\<close> on that key returns absent and the file is
  gone afterwards, whatever its modification time and whether or not a sweep has run.
\<close>

theorem C5_expired_entry:
  assumes "CACHE_KEY_PATTERN_test k" and "cache_dir w = Some es"
    and "map_of es (k @ ''.json'') = Some f" and "content f = Entry e"
    and "clock w - timestamp e > CACHE_TTL"
  shows "fst (getChunks env k w) = None
       \<and> cache_dir (snd (getChunks env k w)) = Some (remove_name (k @ ''.json'') es)
       \<and> map_of (remove_name (k @ ''.json'') es) (k @ ''.json'') = None
       \<and> CACHE_TTL = 10 * 60 * 1000"
  using getChunks_expired[OF assms, of env]
  by (simp add: map_of_remove_name CACHE_TTL_def)

text \<open>
  C5 at an entry written 600001 ms before the read, in a file whose modification time a sweep
  would accept.
\<close>

theorem C5_witness:
  "CACHE_KEY_PATTERN_test ''0000abcd''
   \<and> cache_dir (disk_with (Some [(''0000abcd.json'', stale_file [1, 2])]))
       = Some [(''0000abcd.json'', stale_file [1, 2])]
   \<and> map_of [(''0000abcd.json'', stale_file [1, 2])] (''0000abcd'' @ ''.json'') = Some (stale_file [1, 2])
   \<and> clock (disk_with (Some [(''0000abcd.json'', stale_file [1, 2])])) - 1699999399999 > CACHE_TTL
   \<and> fst (getChunks env0 ''0000abcd'' (disk_with (Some [(''0000abcd.json'', stale_file [1, 2])]))) = None
   \<and> cache_dir (snd (getChunks env0 ''0000abcd'' (disk_with (Some [(''0000abcd.json'', stale_file [1, 2])]))))
       = Some []"
proof -
  have h1: "CACHE_KEY_PATTERN_test ''0000abcd''" by code_simp
  have h2: "cache_dir (disk_with (Some [(''0000abcd.json'', stale_file [1, 2])]))
       = Some [(''0000abcd.json'', stale_file [1, 2])]" by (simp add: disk_with_def)
  have h3: "map_of [(''0000abcd.json'', stale_file [1, 2])] (''0000abcd'' @ ''.json'') = Some (stale_file [1, 2])"
    by simp
  have h4: "content (stale_file [1, 2]) = Entry \<lparr>chunks = [1, 2], timestamp = 1699999399999, promptHash = []\<rparr>"
    by (simp add: stale_file_def)
  have h5: "clock (disk_with (Some [(''0000abcd.json'', stale_file [1, 2])]))
       - timestamp \<lparr>chunks = [1, 2], timestamp = 1699999399999, promptHash = []\<rparr> > CACHE_TTL"
    by (simp add: disk_with_def CACHE_TTL_def)
  have r: "remove_name (''0000abcd'' @ ''.json'') [(''0000abcd.json'', stale_file [1, 2])] = []"
    by (simp add: remove_name_def)
  show ?thesis
    using C5_expired_entry[OF h1 h2 h3 h4 h5, of env0] h1 h2 h3 h5 r by simp
qed

subsection \<open>C6: the cap on the number of entries\<close>

text \<open>
  C6. From a well-formed state, a call of \<^verbatim>\<open>cacheChunks\<close> that returns leaves at most
  \<^verbatim>\<open>MAX_CACHE_FILES\<close> = 50 entries (and it returns unless the directory is missing and cannot
  be created). \<^verbatim>\<open>enforceFileLimits\<close> removes exactly the entries \<^const>\<open>evicted\<close> names: the
  surplus over the cap, taken from the front of the entries sorted by ascending modification
  time, so that no entry it removes is newer than an entry it keeps.
\<close>

theorem C6_cap_enforced:
  assumes "wf_world w"
  shows "(case cacheChunks env prompt chunks0 w of
            (Inl e, w') \<Rightarrow> \<not> dir_available w
          | (Inr key, w') \<Rightarrow> json_count w' \<le> MAX_CACHE_FILES)
       \<and> (cache_dir w = Some es \<longrightarrow>
            cache_dir (enforceFileLimits env w) = Some (after_eviction es)
            \<and> length (evicted es) = length (json_entries es) - MAX_CACHE_FILES
            \<and> (\<forall>a\<in>set (evicted es). \<forall>b\<in>set (json_entries es) - set (evicted es).
                 mtimeMs (snd a) \<le> mtimeMs (snd b)))
       \<and> MAX_CACHE_FILES = 50"
proof (intro conjI impI)
  show "case cacheChunks env prompt chunks0 w of
            (Inl e, w') \<Rightarrow> \<not> dir_available w
          | (Inr key, w') \<Rightarrow> json_count w' \<le> MAX_CACHE_FILES"
  proof (cases "dir_available w")
    case True
    obtain T L where run: "cacheChunks env prompt chunks0 w
      = (Inr (generated_key w),
         advance (w\<lparr>drawn := final_pos w + 4\<rparr>)
           (Some (after_eviction (written_entries env prompt chunks0 w))) T L)"
      using cacheChunks_run[OF assms True, of env prompt chunks0] by blast
    have "distinct (map fst (written_entries env prompt chunks0 w))"
      using wf_written[OF assms, of env prompt chunks0] by (simp add: wf_dir_def)
    then have "length (json_entries (after_eviction (written_entries env prompt chunks0 w))) \<le> MAX_CACHE_FILES"
      by (simp add: count_after_eviction)
    then show ?thesis unfolding run by (simp add: json_count_def initial_entries_def)
  next
    case False
    then show ?thesis using cacheChunks_raises[OF False, of env prompt chunks0] by auto
  qed
next
  assume d: "cache_dir w = Some es"
  then have "wf_dir es" using assms by (simp add: wf_world_def)
  then show "cache_dir (enforceFileLimits env w) = Some (after_eviction es)"
    using enforceFileLimits_advance[OF d, of env] by auto
next
  show "length (evicted es) = length (json_entries es) - MAX_CACHE_FILES" by (rule length_evicted)
next
  show "\<forall>a\<in>set (evicted es). \<forall>b\<in>set (json_entries es) - set (evicted es).
          mtimeMs (snd a) \<le> mtimeMs (snd b)"
    using evicted_oldest[of _ es] by blast
next
  show "MAX_CACHE_FILES = 50" by (simp add: MAX_CACHE_FILES_def)
qed

text \<open>
  C6 at a directory of 52 entries: the two oldest are evicted.
\<close>

theorem C6_witness:
  "wf_world crowded \<and> json_count crowded = 52
   \<and> (case cacheChunks env0 ''fix bug'' [1, 2] crowded of
         (Inl e, w') \<Rightarrow> \<not> dir_available crowded
       | (Inr key, w') \<Rightarrow> json_count w' \<le> MAX_CACHE_FILES)
   \<and> cache_dir (enforceFileLimits env0 crowded) = Some (after_eviction crowded_entries)
   \<and> map fst (evicted crowded_entries) = [''00000000.json'', ''01000000.json'']"
proof -
  have wf: "wf_world crowded" by code_simp
  have n: "json_count crowded = 52" by code_simp
  have d: "cache_dir crowded = Some crowded_entries" by (simp add: crowded_def disk_with_def)
  have ev: "map fst (evicted crowded_entries) = [''00000000.json'', ''01000000.json'']" by code_simp
  show ?thesis
    using C6_cap_enforced[OF wf, of env0 "''fix bug''" "[1, 2]" crowded_entries] wf n d ev by simp
qed

subsection \<open>C7: an entry that cannot be read heals itself\<close>

text \<open>
  C7, as amended. When the file of a valid key is there and \<^verbatim>\<open>JSON.parse\<close> rejects its text,
  or the value parsed is \<^verbatim>\<open>null\<close>, or the value has no \<^verbatim>\<open>chunks\<close> (the property is
  \<^verbatim>\<open>undefined\<close> or \<^verbatim>\<open>null\<close>), \<^verbatim>\<open>getChunks\<close> returns absent (its result has no error
  case: the exception is caught) and the file is gone afterwards.
\<close>

theorem C7_unreadable_entry:
  assumes "CACHE_KEY_PATTERN_test k" and "cache_dir w = Some es"
    and "map_of es (k @ ''.json'') = Some f"
    and "content f = Corrupt \<or> content f = Json ParsedNull
         \<or> (\<exists>data_timestamp. content f = Json (ParsedValue data_timestamp None))"
  shows "fst (getChunks env k w) = None
       \<and> cache_dir (snd (getChunks env k w)) = Some (remove_name (k @ ''.json'') es)
       \<and> map_of (remove_name (k @ ''.json'') es) (k @ ''.json'') = None"
proof -
  have "fst (getChunks env k w) = None
       \<and> cache_dir (snd (getChunks env k w)) = Some (remove_name (k @ ''.json'') es)"
    using assms(4)
  proof (elim disjE exE)
    assume "content f = Corrupt"
    from getChunks_corrupt[OF assms(1-3) this, of env] show ?thesis by simp
  next
    assume "content f = Json ParsedNull"
    from getChunks_null[OF assms(1-3) this, of env] show ?thesis by simp
  next
    fix data_timestamp assume "content f = Json (ParsedValue data_timestamp None)"
    from getChunks_no_chunks[OF assms(1-3) this, of env] show ?thesis .
  qed
  then show ?thesis by (simp add: map_of_remove_name)
qed

text \<open>
  C7 as stated fails. What \<^verbatim>\<open>JSON.parse\<close> returns is not checked against \<^verbatim>\<open>CacheEntry\<close>.
  The text \<^verbatim>\<open>{"chunks":5,"timestamp":1700000000000}\<close> is well-formed JSON and not a cache
  entry, its \<^verbatim>\<open>chunks\<close> being a number; on a file that holds it, read at the time of the
  timestamp, \<^verbatim>\<open>getChunks\<close> returns the number 5 as a hit, logs
  \<^verbatim>\<open>returning undefined chunks\<close>, and keeps the file.
\<close>

theorem C7_counterexample:
  "CACHE_KEY_PATTERN_test ''0000abcd''
   \<and> content wrong_shape_file
       = Json (ParsedValue (Some 1700000000000) (Some (OtherValue ''5'' ''undefined'')))
   \<and> fst (getChunks env0 ''0000abcd'' (disk_with (Some [(''0000abcd.json'', wrong_shape_file)])))
       = Some (OtherValue ''5'' ''undefined'')
   \<and> cache_dir (snd (getChunks env0 ''0000abcd'' (disk_with (Some [(''0000abcd.json'', wrong_shape_file)]))))
       = Some [(''0000abcd.json'', wrong_shape_file)]
   \<and> logged (snd (getChunks env0 ''0000abcd'' (disk_with (Some [(''0000abcd.json'', wrong_shape_file)]))))
       = [LogDebug ''Cache hit for 0000abcd, returning undefined chunks'']"
proof -
  have h1: "CACHE_KEY_PATTERN_test ''0000abcd''" by code_simp
  have h2: "content wrong_shape_file
       = Json (ParsedValue (Some 1700000000000) (Some (OtherValue ''5'' ''undefined'')))"
    by (simp add: wrong_shape_file_def)
  have h3: "fst (getChunks env0 ''0000abcd'' (disk_with (Some [(''0000abcd.json'', wrong_shape_file)])))
       = Some (OtherValue ''5'' ''undefined'')" by code_simp
  have h4: "cache_dir (snd (getChunks env0 ''0000abcd'' (disk_with (Some [(''0000abcd.json'', wrong_shape_file)]))))
       = Some [(''0000abcd.json'', wrong_shape_file)]" by code_simp
  have h5: "logged (snd (getChunks env0 ''0000abcd'' (disk_with (Some [(''0000abcd.json'', wrong_shape_file)]))))
       = [LogDebug ''Cache hit for 0000abcd, returning undefined chunks'']" by code_simp
  show ?thesis using h1 h2 h3 h4 h5 by simp
qed

text \<open>
  C7, as amended, at a file that holds \<^verbatim>\<open>{"timestamp":1700000000000}\<close> and at a file whose
  text \<^verbatim>\<open>JSON.parse\<close> rejects.
\<close>

theorem C7_witness:
  "CACHE_KEY_PATTERN_test ''0000abcd''
   \<and> cache_dir (disk_with (Some [(''0000abcd.json'', no_chunks_file)])) = Some [(''0000abcd.json'', no_chunks_file)]
   \<and> map_of [(''0000abcd.json'', no_chunks_file)] (''0000abcd'' @ ''.json'') = Some no_chunks_file
   \<and> content no_chunks_file = Json (ParsedValue (Some 1700000000000) None)
   \<and> fst (getChunks env0 ''0000abcd'' (disk_with (Some [(''0000abcd.json'', no_chunks_file)]))) = None
   \<and> cache_dir (snd (getChunks env0 ''0000abcd'' (disk_with (Some [(''0000abcd.json'', no_chunks_file)]))))
       = Some []
   \<and> cache_dir (disk_with (Some [(''0000abcd.json'', corrupt_file)])) = Some [(''0000abcd.json'', corrupt_file)]
   \<and> map_of [(''0000abcd.json'', corrupt_file)] (''0000abcd'' @ ''.json'') = Some corrupt_file
   \<and> content corrupt_file = Corrupt
   \<and> fst (getChunks env0 ''0000abcd'' (disk_with (Some [(''0000abcd.json'', corrupt_file)]))) = None
   \<and> cache_dir (snd (getChunks env0 ''0000abcd'' (disk_with (Some [(''0000abcd.json'', corrupt_file)]))))
       = Some []"
proof -
  have h1: "CACHE_KEY_PATTERN_test ''0000abcd''" by code_simp
  have h2: "cache_dir (disk_with (Some [(''0000abcd.json'', f)])) = Some [(''0000abcd.json'', f)]" for f
    by (simp add: disk_with_def)
  have h3: "map_of [(''0000abcd.json'', f)] (''0000abcd'' @ ''.json'') = Some f" for f :: "nat stored_file"
    by simp
  have n4: "content no_chunks_file = Json (ParsedValue (Some 1700000000000) None)"
    by (simp add: no_chunks_file_def)
  have n4': "content no_chunks_file = Corrupt \<or> content no_chunks_file = Json ParsedNull
         \<or> (\<exists>data_timestamp. content no_chunks_file = Json (ParsedValue data_timestamp None))"
    using n4 by simp
  have c4: "content corrupt_file = Corrupt" by (simp add: corrupt_file_def)
  have c4': "content corrupt_file = Corrupt \<or> content corrupt_file = Json ParsedNull
         \<or> (\<exists>data_timestamp. content corrupt_file = Json (ParsedValue data_timestamp None))"
    using c4 by simp
  have r: "remove_name (''0000abcd'' @ ''.json'') [(''0000abcd.json'', f)] = []" for f :: "nat stored_file"
    by (simp add: remove_name_def)
  show ?thesis
    using C7_unreadable_entry[OF h1 h2 h3 n4', of env0] C7_unreadable_entry[OF h1 h2 h3 c4', of env0]
      h1 h2 h3 n4 c4 r by simp
qed

subsection \<open>C8: a cache directory that cannot be created\<close>

text \<open>
  C8 fails when the cache directory is missing and \<^verbatim>\<open>mkdirSync\<close> fails. \<^verbatim>\<open>cacheChunks\<close>
  calls \<^verbatim>\<open>ensureCacheDir\<close> before its \<^verbatim>\<open>try\<close>, so the error leaves the function: no key is
  returned and nothing is logged, after the two calls \<^verbatim>\<open>existsSync\<close> and \<^verbatim>\<open>mkdirSync\<close> on
  the directory. (When the directory is there or can be created, a failed write or
  serialisation is logged and the key is returned: lemma \<open>key_despite_failed_write\<close>.)
\<close>

theorem C8_raises_without_directory:
  assumes "cache_dir w = None" and "mkdir_fault w"
  shows "fst (cacheChunks env prompt chunks0 w) = Inl EIO
       \<and> logged (snd (cacheChunks env prompt chunks0 w)) = logged w
       \<and> syscalls (snd (cacheChunks env prompt chunks0 w))
           = syscalls w @ [ExistsSync (CACHE_DIR env), MkdirSync (CACHE_DIR env)]"
  by (simp add: cacheChunks_no_directory[OF assms])

text \<open>
  The call \<^verbatim>\<open>cacheChunks('fix bug', [1, 2])\<close> with no directory \<^verbatim>\<open>/tmp/gemini-mcp-chunks\<close> and
  a failing \<^verbatim>\<open>mkdirSync\<close>: the error is raised.
\<close>

theorem C8_witness:
  "cache_dir no_directory = None \<and> mkdir_fault no_directory
   \<and> fst (cacheChunks env0 ''fix bug'' [1, 2] no_directory) = Inl EIO
   \<and> logged (snd (cacheChunks env0 ''fix bug'' [1, 2] no_directory)) = []
   \<and> syscalls (snd (cacheChunks env0 ''fix bug'' [1, 2] no_directory))
       = [ExistsSync ''/tmp/gemini-mcp-chunks'', MkdirSync ''/tmp/gemini-mcp-chunks'']"
proof -
  have h1: "cache_dir no_directory = None" by (simp add: no_directory_def disk_with_def)
  have h2: "mkdir_fault no_directory" by (simp add: no_directory_def disk_with_def)
  have l: "logged no_directory = [] \<and> syscalls no_directory = []"
    by (simp add: no_directory_def disk_with_def)
  have c: "CACHE_DIR env0 = ''/tmp/gemini-mcp-chunks''" by code_simp
  show ?thesis
    using C8_raises_without_directory[OF h1 h2, of env0 "''fix bug''" "[1, 2]"] h1 h2 l c by simp
qed

subsection \<open>C9: clearing the cache\<close>

text \<open>
  C9. From a well-formed state whose cache directory exists or can be created,
  \<^verbatim>\<open>clearCache\<close> leaves no entry, and \<^verbatim>\<open>getCacheStats\<close> right after it reports size 0.
\<close>

theorem C9_clear_then_stats:
  assumes "wf_world w" and "dir_available w"
  shows "json_count (clearCache env w) = 0
       \<and> fst (getCacheStats env (clearCache env w))
           = Inr \<lparr>size' = 0, ttl = CACHE_TTL, maxSize = MAX_CACHE_FILES, cacheDir = CACHE_DIR env\<rparr>"
proof (cases "cache_dir w")
  case None
  then have "\<not> mkdir_fault w" using assms(2) by (simp add: dir_available_def)
  then obtain T L where c: "clearCache env w = advance w (Some []) T L"
    using clearCache_created[OF None, of env] by blast
  have "cache_dir (clearCache env w) = Some []" by (simp add: c)
  then show ?thesis
    using getCacheStats_present[of "clearCache env w" "[]" env]
    by (simp add: json_count_def initial_entries_def json_entries_def)
next
  case (Some es)
  then have "wf_dir es" using assms(1) by (simp add: wf_world_def)
  then obtain T L where c: "clearCache env w = advance w (Some (filter (\<lambda>e. \<not> is_json (fst e)) es)) T L"
    using clearCache_present[OF Some, of env] by blast
  have d: "cache_dir (clearCache env w) = Some (filter (\<lambda>e. \<not> is_json (fst e)) es)" by (simp add: c)
  have z: "filter is_json (map fst (filter (\<lambda>e. \<not> is_json (fst e)) es)) = []"
    by (simp add: filter_map comp_def)
  show ?thesis
    using getCacheStats_present[OF d, of env] z
    by (simp add: json_count_def initial_entries_def json_entries_def d)
qed

text \<open>
  C9 at a directory of six entries.
\<close>

theorem C9_witness:
  "wf_world six_taken \<and> dir_available six_taken \<and> json_count six_taken = 6
   \<and> json_count (clearCache env0 six_taken) = 0
   \<and> fst (getCacheStats env0 (clearCache env0 six_taken))
       = Inr \<lparr>size' = 0, ttl = 600000, maxSize = 50, cacheDir = ''/tmp/gemini-mcp-chunks''\<rparr>"
proof -
  have h1: "wf_world six_taken" by code_simp
  have h2: "dir_available six_taken" by code_simp
  have n: "json_count six_taken = 6" by code_simp
  have c: "CACHE_TTL = 600000 \<and> MAX_CACHE_FILES = 50 \<and> CACHE_DIR env0 = ''/tmp/gemini-mcp-chunks''"
    by code_simp
  show ?thesis
    using C9_clear_then_stats[OF h1 h2, of env0] h1 h2 n c by simp
qed

subsection \<open>C10: redaction\<close>

text \<open>
  C10. When \<^verbatim>\<open>GEMINI_MCP_LOG_PROMPTS\<close> is not \<^verbatim>\<open>1\<close>, \<^verbatim>\<open>redactString\<close> returns
  \<^verbatim>\<open>[REDACTED len=\<close>, the length, \<^verbatim>\<open> sha256=\<close>, the first twelve digits of the digest and
  \<^verbatim>\<open>]\<close>. The result is \<^const>\<open>redaction_of\<close> applied to the length and the digest prefix,
  a function that is not given the raw text: two values of equal length and equal digest
  prefix are redacted to the same string.
\<close>

theorem C10_redaction:
  assumes "GEMINI_MCP_LOG_PROMPTS env \<noteq> Some ''1''"
  shows "redactString env v
           = ''[REDACTED len='' @ show_nat (length v) @ '' sha256='' @ take 12 (sha256_hex env v) @ '']''
       \<and> redactString env v = redaction_of (length v) (take 12 (sha256_hex env v))
       \<and> (length v = length v' \<and> take 12 (sha256_hex env v) = take 12 (sha256_hex env v')
            \<longrightarrow> redactString env v = redactString env v')"
  using assms by (simp add: redactString_def shouldLogPrompts_def redaction_of_def Let_def)

text \<open>
  C10 at the value \<^verbatim>\<open>fix bug\<close>.
\<close>

theorem C10_witness:
  "GEMINI_MCP_LOG_PROMPTS env0 \<noteq> Some ''1''
   \<and> redactString env0 ''fix bug'' = ''[REDACTED len=7 sha256=52f2d71111e2]''"
proof -
  have h: "GEMINI_MCP_LOG_PROMPTS env0 \<noteq> Some ''1''" by (simp add: env0_def)
  have v: "''[REDACTED len='' @ show_nat (length ''fix bug'') @ '' sha256=''
             @ take 12 (sha256_hex env0 ''fix bug'') @ '']'' = ''[REDACTED len=7 sha256=52f2d71111e2]''"
    by code_simp
  show ?thesis
    using C10_redaction[OF h, of "''fix bug''" "''fix bug''"] h v by simp
qed

end
